theory Spec2Isabelle
  imports Complex_Main "HOL-Library.Sublist"
begin

section \<open>Data model\<close>

text \<open>
  The script \<^verbatim>\<open>generate_detailed_qa_pairs.py\<close> reads a JSON document, takes a sign
  name, a dictionary of sections and a list of keywords out of each entry's ground-truth
  text with regular expressions, and expands fixed question templates into
  question/answer records.

  A Python \<^verbatim>\<open>str\<close> is a \<open>string\<close> here; a \<open>char\<close> stands for one code point below
  256, so the theorems speak about the texts over that range. A value read by
  \<^verbatim>\<open>json.load\<close> is a \<open>json\<close>; an object keeps its items in order, as a Python
  dictionary does. The payload of a number is never inspected by the script.
\<close>

datatype json =
    JNull
  | JBool bool
  | JInt int
  | JFloat real
  | JStr string
  | JArr "json list"
  | JObj "(string \<times> json) list"

text \<open>The exceptions the script can meet, as values.\<close>

datatype error =
    ValueError string
  | TypeError
  | KeyError string
  | IndexError
  | OSError
  | JSONDecodeError
  | UnsupportedField string

text \<open>One emitted record: the dictionary with the keys image, question and answer.\<close>

record qa_pair =
  qa_image :: json
  qa_question :: string
  qa_answer :: string

section \<open>The question templates\<close>

definition SECTION_QUESTIONS :: "(string \<times> string list) list" where
  "SECTION_QUESTIONS =
    [(''1'',
      [''What is the immediate action a driver should take when seeing the '{sign}' sign?'',
       ''When is the '{sign}' sign typically used?'',
       ''What safety rule does section {section} enforce in the '{sign}' sign?'']),
     (''2'',
      [''What should a driver do at a '{sign}' when there is no stop line?'',
       ''How does a driver react to a '{sign}' when there's a pedestrian crossing?'',
       ''What does section {section} of the '{sign}' sign indicate?'']),
     (''3'',
      [''How should the driver behave in construction zones near a '{sign}'?'',
       ''What does the '{sign}' indicate at a railway crossing?'',
       ''What special caution is required in section {section} of the '{sign}' sign?'']),
     (''4'',
      [''When is it prohibited to stop near a '{sign}'?'',
       ''What are unsafe stopping locations for a driver near a '{sign}'?'',
       ''Why must a driver be extra careful around section {section} of the '{sign}' sign?''])]"

definition GENERIC_SECTION_TEMPLATES :: "string list" where
  "GENERIC_SECTION_TEMPLATES =
    [''What does section {section} of the '{sign}' sign mean?'',
     ''Explain the rule under section {section} for the '{sign}' traffic sign.'',
     ''How should drivers behave according to section {section} of the '{sign}' sign?'']"

definition KEYWORD_TEMPLATES :: "string list" where
  "KEYWORD_TEMPLATES =
    [''How is '{kw}' handled when a driver encounters the '{sign}' sign?'',
     ''Explain why '{kw}' is important under the '{sign}' sign.'',
     ''What is the implication of '{kw}' for drivers near the '{sign}' sign?'',
     ''In what situation does '{kw}' apply under the '{sign}' sign?'']"

definition SCENARIO_TEMPLATES :: "string list" where
  "SCENARIO_TEMPLATES =
    [''If a driver is near a '{sign}' sign and sees '{kw}', what should they do?'',
     ''Describe what action should be taken if '{kw}' occurs near a '{sign}' sign.'',
     ''Why must a driver be cautious of '{kw}' when the '{sign}' sign is present?'',
     ''What could happen if a driver ignores the '{kw}' instruction under the '{sign}' sign?'']"

section \<open>String operations of the Python library\<close>

definition newline :: char where
  "newline = CHR 0x0A"

definition dquote :: char where
  "dquote = CHR 0x22"

definition squote :: char where
  "squote = CHR 0x27"

text \<open>
  Whitespace as \<^verbatim>\<open>str.strip()\<close> and the class \<^verbatim>\<open>\s\<close> of a \<^verbatim>\<open>str\<close> pattern see it:
  tab to carriage return (0x09 to 0x0D), the separators 0x1C to 0x1F, the space, NEL
  (0x85) and the no-break space (0xA0).
\<close>

definition is_space :: "char \<Rightarrow> bool" where
  "is_space c =
    (c \<in> set [CHR 0x09, CHR 0x0A, CHR 0x0B, CHR 0x0C, CHR 0x0D, CHR 0x1C, CHR 0x1D,
                CHR 0x1E, CHR 0x1F, CHR 0x20, CHR 0x85, CHR 0xA0])"

definition strip :: "string \<Rightarrow> string" where
  "strip s = rev (dropWhile is_space (rev (dropWhile is_space s)))"

text \<open>\<^verbatim>\<open>re.sub(r'\s+', ' ', s)\<close>: every maximal run of whitespace becomes one space.\<close>

function sub_spaces :: "string \<Rightarrow> string" where
  "sub_spaces [] = []"
| "sub_spaces (c # cs) =
    (if is_space c then CHR '' '' # sub_spaces (dropWhile is_space cs)
     else c # sub_spaces cs)"
  by pat_completeness auto
termination
  by (relation "measure length") (auto simp: le_imp_less_Suc length_dropWhile_le)

text \<open>
  Lower case of an ASCII letter. Under \<^verbatim>\<open>re.IGNORECASE\<close> a letter of the pattern
  matches a character of the text when their lower cases agree; among the code points
  below 256 only the two ASCII forms of a letter agree with it.
\<close>

definition ascii_lower :: "char \<Rightarrow> char" where
  "ascii_lower c =
    (case map_of (zip ''ABCDEFGHIJKLMNOPQRSTUVWXYZ'' ''abcdefghijklmnopqrstuvwxyz'') c of
       Some l \<Rightarrow> l
     | None \<Rightarrow> c)"

fun iprefix :: "string \<Rightarrow> string \<Rightarrow> bool" where
  "iprefix [] s = True"
| "iprefix (p # ps) [] = False"
| "iprefix (p # ps) (c # cs) = (ascii_lower p = ascii_lower c \<and> iprefix ps cs)"

text \<open>
  \<^verbatim>\<open>re.search\<close> tries the pattern at every position from the left, the end of the
  text included, and returns the first match.
\<close>

fun re_search :: "(string \<Rightarrow> 'a option) \<Rightarrow> string \<Rightarrow> 'a option" where
  "re_search m [] = m []"
| "re_search m (c # cs) =
    (case m (c # cs) of Some r \<Rightarrow> Some r | None \<Rightarrow> re_search m cs)"

section \<open>The extractor\<close>

subsection \<open>Sign name\<close>

definition sign_open :: string where
  "sign_open = ''<traffic_sign name='' @ [dquote]"

definition tag_close :: string where
  "tag_close = [dquote, CHR ''>'']"

text \<open>
  The tail \<^verbatim>\<open>(.+?)">\<close> of the sign pattern, without \<^verbatim>\<open>re.DOTALL\<close>: the group is the
  shortest run of at least one character, none of them a newline, that is followed by
  \<^verbatim>\<open>">\<close>. \<open>lazy_name\<close> reads the group after its first character; both return the
  group and the text after the match.
\<close>

fun lazy_name :: "string \<Rightarrow> (string \<times> string) option" where
  "lazy_name [] = None"
| "lazy_name (c # cs) =
    (if prefix tag_close (c # cs) then Some ([], drop (length tag_close) (c # cs))
     else if c = newline then None
     else map_option (\<lambda>(g, r). (c # g, r)) (lazy_name cs))"

definition name_group :: "string \<Rightarrow> (string \<times> string) option" where
  "name_group s =
    (case s of
       [] \<Rightarrow> None
     | c # cs \<Rightarrow>
         if c = newline then None
         else map_option (\<lambda>(g, r). (c # g, r)) (lazy_name cs))"

definition sign_match_at :: "string \<Rightarrow> string option" where
  "sign_match_at s =
    (if prefix sign_open s
     then map_option fst (name_group (drop (length sign_open) s))
     else None)"

subsection \<open>Sections\<close>

definition section_open :: string where
  "section_open = ''<section title='' @ [dquote]"

text \<open>The lookahead \<^verbatim>\<open>(?=<section title|KEY WORDS|</traffic_sign>)\<close>.\<close>

definition at_terminator :: "string \<Rightarrow> bool" where
  "at_terminator s =
    (prefix ''<section title'' s \<or> prefix ''KEY WORDS'' s \<or> prefix ''</traffic_sign>'' s)"

text \<open>
  \<^verbatim>\<open>(.*?)(?=...)\<close> under \<^verbatim>\<open>re.DOTALL\<close>: the body is the shortest text after which
  the lookahead holds. The lookahead consumes nothing, so the text left starts at the
  terminator.
\<close>

fun lazy_body :: "string \<Rightarrow> (string \<times> string) option" where
  "lazy_body [] = (if at_terminator [] then Some ([], []) else None)"
| "lazy_body (c # cs) =
    (if at_terminator (c # cs) then Some ([], c # cs)
     else map_option (\<lambda>(b, r). (c # b, r)) (lazy_body cs))"

text \<open>
  \<^verbatim>\<open>(.+?)">(.*?)(?=...)\<close> under \<^verbatim>\<open>re.DOTALL\<close>, after the first character of the
  title: at every \<^verbatim>\<open>">\<close> the body is tried, and when it fails the title grows, as the
  backtracking matcher does.
\<close>

fun lazy_title :: "string \<Rightarrow> (string \<times> string \<times> string) option" where
  "lazy_title [] = None"
| "lazy_title (c # cs) =
    (case (if prefix tag_close (c # cs)
           then lazy_body (drop (length tag_close) (c # cs)) else None) of
       Some (b, r) \<Rightarrow> Some ([], b, r)
     | None \<Rightarrow> map_option (\<lambda>(t, b, r). (c # t, b, r)) (lazy_title cs))"

definition section_match_at :: "string \<Rightarrow> (string \<times> string \<times> string) option" where
  "section_match_at s =
    (if prefix section_open s
     then (case drop (length section_open) s of
             [] \<Rightarrow> None
           | c # cs \<Rightarrow> map_option (\<lambda>(t, b, r). (c # t, b, r)) (lazy_title cs))
     else None)"

lemma lazy_body_length:
  "lazy_body s = Some (b, r) \<Longrightarrow> length r \<le> length s"
  by (induction s arbitrary: b r) (auto split: if_splits)

lemma lazy_title_length:
  "lazy_title s = Some (t, b, r) \<Longrightarrow> length r < length s"
proof (induction s arbitrary: t b r)
  case Nil
  then show ?case by simp
next
  case (Cons c cs)
  show ?case
  proof (cases "if prefix tag_close (c # cs)
                then lazy_body (drop (length tag_close) (c # cs)) else None")
    case None
    with Cons.prems obtain t' where "lazy_title cs = Some (t', b, r)"
      by auto
    with Cons.IH show ?thesis by fastforce
  next
    case (Some br)
    with Cons.prems have "lazy_body (drop (length tag_close) (c # cs)) = Some (b, r)"
      by (auto split: if_splits)
    then have "length r \<le> length (drop (length tag_close) (c # cs))"
      by (rule lazy_body_length)
    then show ?thesis by (simp add: tag_close_def)
  qed
qed

lemma section_match_at_length:
  "section_match_at s = Some (t, b, r) \<Longrightarrow> length r < length s"
proof -
  assume m: "section_match_at s = Some (t, b, r)"
  then obtain c cs t' where d: "drop (length section_open) s = c # cs"
    and l: "lazy_title cs = Some (t', b, r)"
    by (auto simp: section_match_at_def split: if_splits list.splits)
  have "length r < length cs" using l by (rule lazy_title_length)
  also have "length cs < length (drop (length section_open) s)" using d by simp
  also have "\<dots> \<le> length s" by simp
  finally show ?thesis .
qed

text \<open>
  \<^verbatim>\<open>re.finditer\<close>: the matches from left to right, each search starting where the
  last match ended. A match holds the opening tag, so it is never empty.
\<close>

function section_matches :: "string \<Rightarrow> (string \<times> string) list" where
  "section_matches [] = []"
| "section_matches (c # cs) =
    (case section_match_at (c # cs) of
       None \<Rightarrow> section_matches cs
     | Some (title, body, r) \<Rightarrow> (title, body) # section_matches r)"
  by pat_completeness auto
termination
  by (relation "measure length") (auto dest: section_match_at_length)

text \<open>\<^verbatim>\<open>d[k] = v\<close> on a dictionary kept in insertion order.\<close>

fun dict_set :: "'k \<Rightarrow> 'v \<Rightarrow> ('k \<times> 'v) list \<Rightarrow> ('k \<times> 'v) list" where
  "dict_set k v [] = [(k, v)]"
| "dict_set k v (p # ps) = (if fst p = k then (k, v) # ps else p # dict_set k v ps)"

text \<open>\<^verbatim>\<open>d.get(k, default)\<close>.\<close>

definition dict_get :: "('k \<times> 'v) list \<Rightarrow> 'k \<Rightarrow> 'v \<Rightarrow> 'v" where
  "dict_get d k dflt = (case map_of d k of Some v \<Rightarrow> v | None \<Rightarrow> dflt)"

text \<open>The loop of \<^verbatim>\<open>extract_flowchart_sections\<close> over the matches.\<close>

fun collect_sections ::
  "(string \<times> string) list \<Rightarrow> (string \<times> string) list \<Rightarrow> (string \<times> string) list" where
  "collect_sections [] sections = sections"
| "collect_sections ((title, body) # ms) sections =
    collect_sections ms (dict_set (strip title) (sub_spaces (strip body)) sections)"

text \<open>
  \<^verbatim>\<open>re.search\<close> raises \<^verbatim>\<open>TypeError\<close> on a ground truth that is not a string.
\<close>

definition extract_flowchart_sections ::
  "json \<Rightarrow> error + (string \<times> (string \<times> string) list)" where
  "extract_flowchart_sections gt =
    (case gt of
       JStr s \<Rightarrow>
         Inr (case re_search sign_match_at s of
                Some g \<Rightarrow> strip g
              | None \<Rightarrow> ''Unknown'',
              collect_sections (section_matches s) [])
     | _ \<Rightarrow> Inl TypeError)"

subsection \<open>Keywords\<close>

text \<open>
  \<^verbatim>\<open>KEY ?WORDS?(.*)\<close> under \<^verbatim>\<open>re.IGNORECASE | re.DOTALL\<close>, tried at the start of
  \<open>s\<close>: the group is all the text after the marker. The optional space and the
  optional S are taken when they are there; giving the space back cannot help, since
  the letter W would have to stand where the space is.
\<close>

definition keyword_match_at :: "string \<Rightarrow> string option" where
  "keyword_match_at s =
    (if iprefix ''KEY'' s
     then (let r = drop 3 s;
               r1 = (if prefix '' '' r then drop 1 r else r)
           in if iprefix ''WORD'' r1
              then (let r2 = drop 4 r1
                    in Some (if iprefix ''S'' r2 then drop 1 r2 else r2))
              else None)
     else None)"

text \<open>
  \<^verbatim>\<open>"(.*?)"\<close> without \<^verbatim>\<open>re.DOTALL\<close>, after the opening quote: the text up to the
  next quote, which no newline may precede.
\<close>

fun until_quote :: "string \<Rightarrow> (string \<times> string) option" where
  "until_quote [] = None"
| "until_quote (c # cs) =
    (if c = dquote then Some ([], cs)
     else if c = newline then None
     else map_option (\<lambda>(g, r). (c # g, r)) (until_quote cs))"

lemma until_quote_length:
  "until_quote s = Some (g, r) \<Longrightarrow> length r < length s"
  by (induction s arbitrary: g r) (fastforce split: if_splits)+

text \<open>\<^verbatim>\<open>re.findall(r'"(.*?)"', s)\<close>: the groups of the matches from left to right.\<close>

function findall_quoted :: "string \<Rightarrow> string list" where
  "findall_quoted [] = []"
| "findall_quoted (c # cs) =
    (case (if c = dquote then until_quote cs else None) of
       None \<Rightarrow> findall_quoted cs
     | Some (g, r) \<Rightarrow> g # findall_quoted r)"
  by pat_completeness auto
termination
  by (relation "measure length") (auto split: if_splits dest: until_quote_length)

text \<open>
  The bare \<^verbatim>\<open>except\<close> of \<^verbatim>\<open>extract_keywords\<close> turns the \<^verbatim>\<open>TypeError\<close> of a ground
  truth that is not a string into the empty list.
\<close>

definition extract_keywords :: "json \<Rightarrow> string list" where
  "extract_keywords gt =
    (case gt of
       JStr s \<Rightarrow>
         (case re_search keyword_match_at s of
            Some kw_section \<Rightarrow> findall_quoted kw_section
          | None \<Rightarrow> [])
     | _ \<Rightarrow> [])"

section \<open>The loader\<close>

text \<open>
  \<^verbatim>\<open>key in entry\<close> for a string \<open>key\<close>: a key of a dictionary, a substring of a
  string, an element of a list; \<^verbatim>\<open>TypeError\<close> on a number, a boolean or \<^verbatim>\<open>None\<close>.
\<close>

fun py_in :: "string \<Rightarrow> json \<Rightarrow> error + bool" where
  "py_in k (JObj kvs) = Inr (k \<in> set (map fst kvs))"
| "py_in k (JStr s) = Inr (sublist k s)"
| "py_in k (JArr xs) = Inr (JStr k \<in> set xs)"
| "py_in k (JInt i) = Inl TypeError"
| "py_in k (JFloat x) = Inl TypeError"
| "py_in k (JBool b) = Inl TypeError"
| "py_in k JNull = Inl TypeError"

text \<open>
  \<^verbatim>\<open>entry[key]\<close> for a string \<open>key\<close>: the value of a dictionary or \<^verbatim>\<open>KeyError\<close>;
  \<^verbatim>\<open>TypeError\<close> on every other value.
\<close>

fun subscript :: "json \<Rightarrow> string \<Rightarrow> error + json" where
  "subscript (JObj kvs) k = (case map_of kvs k of Some v \<Rightarrow> Inr v | None \<Rightarrow> Inl (KeyError k))"
| "subscript (JStr s) k = Inl TypeError"
| "subscript (JArr xs) k = Inl TypeError"
| "subscript (JInt i) k = Inl TypeError"
| "subscript (JFloat x) k = Inl TypeError"
| "subscript (JBool b) k = Inl TypeError"
| "subscript JNull k = Inl TypeError"

definition entry_message :: string where
  "entry_message = ''Each entry must contain 'image' and 'ground_truth'.''"

text \<open>The validation loop of \<^verbatim>\<open>load_handbook\<close>; \<^verbatim>\<open>or\<close> evaluates its right side only
  when the left one is false.\<close>

fun check_entries :: "json list \<Rightarrow> error + unit" where
  "check_entries [] = Inr ()"
| "check_entries (entry # es) =
    (case py_in ''image'' entry of
       Inl e \<Rightarrow> Inl e
     | Inr has_image \<Rightarrow>
         if \<not> has_image then Inl (ValueError entry_message)
         else (case py_in ''ground_truth'' entry of
                 Inl e \<Rightarrow> Inl e
               | Inr has_gt \<Rightarrow>
                   if \<not> has_gt then Inl (ValueError entry_message)
                   else check_entries es))"

text \<open>
  \<^verbatim>\<open>load_handbook\<close>. Its argument is what \<^verbatim>\<open>open\<close> and \<^verbatim>\<open>json.load\<close> gave for the
  path: the parsed document, or the exception they raised.
\<close>

definition load_handbook :: "error + json \<Rightarrow> error + json list" where
  "load_handbook file =
    (case file of
       Inl e \<Rightarrow> Inl e
     | Inr data \<Rightarrow>
         (case data of
            JArr es \<Rightarrow> (case check_entries es of Inl e \<Rightarrow> Inl e | Inr u \<Rightarrow> Inr es)
          | _ \<Rightarrow> Inl (ValueError ''Handbook data should be a list.'')))"

section \<open>The expander\<close>

subsection \<open>\<^verbatim>\<open>str.format\<close> with keyword arguments\<close>

text \<open>
  A replacement field \<^verbatim>\<open>{name}\<close> is replaced by the keyword argument of that name,
  which is not scanned again; \<^verbatim>\<open>{{\<close> and \<^verbatim>\<open>}}\<close> stand for one brace. An unbalanced
  brace is a \<^verbatim>\<open>ValueError\<close>, a name without argument a \<^verbatim>\<open>KeyError\<close>, an empty or
  numeric name asks for a positional argument, of which there is none. Every field of
  the script's templates is a plain name; a field with an attribute, an index, a
  conversion or a format specification is outside this model and answered by
  \<open>UnsupportedField\<close>.
\<close>

definition field_value :: "(string \<times> string) list \<Rightarrow> string \<Rightarrow> error + string" where
  "field_value kwargs name =
    (if list_all (\<lambda>c. c \<in> set ''0123456789'') name then Inl IndexError
     else if list_ex (\<lambda>c. c \<in> set ''.[!:{'') name then Inl (UnsupportedField name)
     else (case map_of kwargs name of Some v \<Rightarrow> Inr v | None \<Rightarrow> Inl (KeyError name)))"

definition sum_bind :: "'e + 'a \<Rightarrow> ('a \<Rightarrow> 'e + 'b) \<Rightarrow> 'e + 'b" where
  "sum_bind r f = (case r of Inl e \<Rightarrow> Inl e | Inr x \<Rightarrow> f x)"

text \<open>
  The second argument is \<open>None\<close> in literal text and \<open>Some name\<close> inside a field, of
  which \<open>name\<close> has been read.
\<close>

fun format_from :: "(string \<times> string) list \<Rightarrow> string option \<Rightarrow> string \<Rightarrow> error + string" where
  "format_from kwargs None [] = Inr []"
| "format_from kwargs (Some name) [] = Inl (ValueError ''expected '}' before end of string'')"
| "format_from kwargs None [c] =
    (if c = CHR ''{'' then Inl (ValueError ''Single '{' encountered in format string'')
     else if c = CHR ''}'' then Inl (ValueError ''Single '}' encountered in format string'')
     else Inr [c])"
| "format_from kwargs None (c # d # ds) =
    (if c = CHR ''{'' then
       (if d = CHR ''{'' then sum_bind (format_from kwargs None ds) (\<lambda>r. Inr (c # r))
        else format_from kwargs (Some []) (d # ds))
     else if c = CHR ''}'' then
       (if d = CHR ''}'' then sum_bind (format_from kwargs None ds) (\<lambda>r. Inr (c # r))
        else Inl (ValueError ''Single '}' encountered in format string''))
     else sum_bind (format_from kwargs None (d # ds)) (\<lambda>r. Inr (c # r)))"
| "format_from kwargs (Some name) (c # cs) =
    (if c = CHR ''}'' then
       sum_bind (field_value kwargs name)
         (\<lambda>v. sum_bind (format_from kwargs None cs) (\<lambda>r. Inr (v @ r)))
     else format_from kwargs (Some (name @ [c])) cs)"

definition format :: "string \<Rightarrow> (string \<times> string) list \<Rightarrow> error + string" where
  "format template kwargs = format_from kwargs None template"

subsection \<open>The random generator\<close>

text \<open>
  The process-wide generator is a tape of naturals and the position of the next draw:
  a draw below \<open>n\<close> reads one cell. Python computes its draws from a hidden state; the
  tape is arbitrary, so what holds for every tape holds for every outcome of
  \<^verbatim>\<open>random.choice\<close> and \<^verbatim>\<open>random.sample\<close>: an element at any position, and \<open>k\<close>
  elements at distinct positions in any order.
\<close>

record rng =
  tape :: "nat \<Rightarrow> nat"
  pos :: nat

definition randbelow :: "rng \<Rightarrow> nat \<Rightarrow> nat \<times> rng" where
  "randbelow g n = (tape g (pos g) mod n, g\<lparr>pos := Suc (pos g)\<rparr>)"

text \<open>The generator whose every draw is 0, for the worked examples.\<close>

definition zero_rng :: rng where
  "zero_rng = \<lparr>tape = (\<lambda>i. 0), pos = 0\<rparr>"

definition random_choice :: "rng \<Rightarrow> 'a list \<Rightarrow> error + ('a \<times> rng)" where
  "random_choice g seq =
    (if seq = [] then Inl IndexError
     else (case randbelow g (length seq) of (i, g') \<Rightarrow> Inr (seq ! i, g')))"

fun sample_loop :: "rng \<Rightarrow> 'a list \<Rightarrow> nat \<Rightarrow> 'a list \<times> rng" where
  "sample_loop g pool 0 = ([], g)"
| "sample_loop g pool (Suc k) =
    (case randbelow g (length pool) of
       (j, g1) \<Rightarrow>
         (case sample_loop g1 (take j pool @ drop (Suc j) pool) k of
            (rest, g2) \<Rightarrow> (pool ! j # rest, g2)))"

definition random_sample :: "rng \<Rightarrow> 'a list \<Rightarrow> nat \<Rightarrow> error + ('a list \<times> rng)" where
  "random_sample g population k =
    (if length population < k
     then Inl (ValueError ''Sample larger than population or is negative'')
     else Inr (sample_loop g population k))"

subsection \<open>\<^verbatim>\<open>generate_qa_pairs\<close>\<close>

text \<open>
  The output list \<^verbatim>\<open>qa_pairs\<close> is one list that every \<^verbatim>\<open>append\<close> extends in place,
  so each loop takes the list and returns it with the exception that ended the loop, if
  any: records appended before an exception stay in the list.
\<close>

fun section_templates ::
  "json \<Rightarrow> string \<Rightarrow> string \<Rightarrow> string \<Rightarrow> string list \<Rightarrow> qa_pair list
    \<Rightarrow> error option \<times> qa_pair list" where
  "section_templates img_path sign_name section_no section_text [] qa_pairs = (None, qa_pairs)"
| "section_templates img_path sign_name section_no section_text (q_template # ts) qa_pairs =
    (case format q_template [(''sign'', sign_name), (''section'', section_no)] of
       Inl e \<Rightarrow> (Some e, qa_pairs)
     | Inr question \<Rightarrow>
         section_templates img_path sign_name section_no section_text ts
           (qa_pairs @
             [\<lparr>qa_image = img_path, qa_question = question, qa_answer = section_text\<rparr>]))"

fun sections_loop ::
  "json \<Rightarrow> string \<Rightarrow> (string \<times> string) list \<Rightarrow> qa_pair list
    \<Rightarrow> error option \<times> qa_pair list" where
  "sections_loop img_path sign_name [] qa_pairs = (None, qa_pairs)"
| "sections_loop img_path sign_name ((section_no, section_text) # items) qa_pairs =
    (case section_templates img_path sign_name section_no section_text
            (dict_get SECTION_QUESTIONS section_no GENERIC_SECTION_TEMPLATES) qa_pairs of
       (Some e, qa_pairs') \<Rightarrow> (Some e, qa_pairs')
     | (None, qa_pairs') \<Rightarrow> sections_loop img_path sign_name items qa_pairs')"

text \<open>The f-string of the keyword answer.\<close>

definition keyword_answer :: "string \<Rightarrow> string \<Rightarrow> string \<Rightarrow> string" where
  "keyword_answer sign_name kw chosen_section =
    ''In the context of the '' @ [squote] @ sign_name @ [squote] @ '' sign, the keyword ''
      @ [squote] @ kw @ [squote] @ '' relates to: '' @ chosen_section"

fun keyword_templates ::
  "json \<Rightarrow> string \<Rightarrow> string \<Rightarrow> string \<Rightarrow> string list \<Rightarrow> qa_pair list
    \<Rightarrow> error option \<times> qa_pair list" where
  "keyword_templates img_path sign_name kw chosen_section [] qa_pairs = (None, qa_pairs)"
| "keyword_templates img_path sign_name kw chosen_section (kw_q_template # ts) qa_pairs =
    (case format kw_q_template [(''kw'', kw), (''sign'', sign_name)] of
       Inl e \<Rightarrow> (Some e, qa_pairs)
     | Inr question \<Rightarrow>
         keyword_templates img_path sign_name kw chosen_section ts
           (qa_pairs @
             [\<lparr>qa_image = img_path, qa_question = question,
               qa_answer = keyword_answer sign_name kw chosen_section\<rparr>]))"

text \<open>
  \<^verbatim>\<open>random.choice(list(sections.values())) if sections else "Refer to sign rules."\<close>
\<close>

definition choose_section :: "rng \<Rightarrow> (string \<times> string) list \<Rightarrow> error + (string \<times> rng)" where
  "choose_section g sections =
    (if sections \<noteq> [] then random_choice g (map snd sections)
     else Inr (''Refer to sign rules.'', g))"

fun keywords_loop ::
  "rng \<Rightarrow> json \<Rightarrow> string \<Rightarrow> (string \<times> string) list \<Rightarrow> string list \<Rightarrow> qa_pair list
    \<Rightarrow> error option \<times> qa_pair list \<times> rng" where
  "keywords_loop g img_path sign_name sections [] qa_pairs = (None, qa_pairs, g)"
| "keywords_loop g img_path sign_name sections (kw # kws) qa_pairs =
    (case choose_section g sections of
       Inl e \<Rightarrow> (Some e, qa_pairs, g)
     | Inr (chosen_section, g1) \<Rightarrow>
         (case keyword_templates img_path sign_name kw chosen_section
                 (KEYWORD_TEMPLATES @ SCENARIO_TEMPLATES) qa_pairs of
            (Some e, qa_pairs') \<Rightarrow> (Some e, qa_pairs', g1)
          | (None, qa_pairs') \<Rightarrow> keywords_loop g1 img_path sign_name sections kws qa_pairs'))"

text \<open>
  The statements of the \<^verbatim>\<open>try\<close> body after the two extractions: the loop over the
  sections, the sampling of at most five keywords and the loop over them.
\<close>

definition expand_entry ::
  "rng \<Rightarrow> json \<Rightarrow> string \<Rightarrow> (string \<times> string) list \<Rightarrow> string list \<Rightarrow> qa_pair list
    \<Rightarrow> error option \<times> qa_pair list \<times> rng" where
  "expand_entry g img_path sign_name sections keywords qa_pairs =
    (case sections_loop img_path sign_name sections qa_pairs of
       (Some e, qa_pairs1) \<Rightarrow> (Some e, qa_pairs1, g)
     | (None, qa_pairs1) \<Rightarrow>
         (case random_sample g keywords (min (length keywords) 5) of
            Inl e \<Rightarrow> (Some e, qa_pairs1, g)
          | Inr (sampled_keywords, g1) \<Rightarrow>
              keywords_loop g1 img_path sign_name sections sampled_keywords qa_pairs1))"

text \<open>
  The body of the \<^verbatim>\<open>try\<close> statement for one entry: the exception that left it, if
  any, the output list and the generator as it left them.
\<close>

definition try_body ::
  "rng \<Rightarrow> json \<Rightarrow> json \<Rightarrow> qa_pair list \<Rightarrow> error option \<times> qa_pair list \<times> rng" where
  "try_body g img_path gt qa_pairs =
    (case extract_flowchart_sections gt of
       Inl e \<Rightarrow> (Some e, qa_pairs, g)
     | Inr (sign_name, sections) \<Rightarrow>
         expand_entry g img_path sign_name sections (extract_keywords gt) qa_pairs)"

text \<open>
  The loop over the entries. The two subscripts stand before the \<^verbatim>\<open>try\<close>, so their
  exception ends the whole call; the handler of the \<^verbatim>\<open>try\<close> prints and goes on to the
  next entry with the list as the body left it.
\<close>

fun entries_loop :: "rng \<Rightarrow> json list \<Rightarrow> qa_pair list \<Rightarrow> error + (qa_pair list \<times> rng)" where
  "entries_loop g [] qa_pairs = Inr (qa_pairs, g)"
| "entries_loop g (entry # es) qa_pairs =
    (case subscript entry ''image'' of
       Inl e \<Rightarrow> Inl e
     | Inr img_path \<Rightarrow>
         (case subscript entry ''ground_truth'' of
            Inl e \<Rightarrow> Inl e
          | Inr gt \<Rightarrow>
              (case try_body g img_path gt qa_pairs of
                 (exc, qa_pairs', g') \<Rightarrow> entries_loop g' es qa_pairs')))"

definition generate_qa_pairs :: "rng \<Rightarrow> json list \<Rightarrow> error + qa_pair list" where
  "generate_qa_pairs g handbook_data =
    (case entries_loop g handbook_data [] of
       Inl e \<Rightarrow> Inl e
     | Inr (qa_pairs, g') \<Rightarrow> Inr qa_pairs)"

section \<open>Properties of the expander's loops\<close>

lemma sum_bind_Inr [simp]: "sum_bind (Inr x) f = f x"
  by (simp add: sum_bind_def)

lemma sum_bind_Inl [simp]: "sum_bind (Inl e) f = Inl e"
  by (simp add: sum_bind_def)

lemma field_value_section_args [simp]:
  "field_value [(''sign'', s), (''section'', n)] ''sign'' = Inr s"
  "field_value [(''sign'', s), (''section'', n)] ''section'' = Inr n"
  by (simp_all add: field_value_def)

lemma field_value_keyword_args [simp]:
  "field_value [(''kw'', k), (''sign'', s)] ''sign'' = Inr s"
  "field_value [(''kw'', k), (''sign'', s)] ''kw'' = Inr k"
  by (simp_all add: field_value_def)

lemma dict_get_cases:
  "dict_get SECTION_QUESTIONS no GENERIC_SECTION_TEMPLATES =
    (if no = ''1'' then the (map_of SECTION_QUESTIONS ''1'')
     else if no = ''2'' then the (map_of SECTION_QUESTIONS ''2'')
     else if no = ''3'' then the (map_of SECTION_QUESTIONS ''3'')
     else if no = ''4'' then the (map_of SECTION_QUESTIONS ''4'')
     else GENERIC_SECTION_TEMPLATES)"
  by (simp add: dict_get_def SECTION_QUESTIONS_def)

lemma section_templates_length:
  "length (dict_get SECTION_QUESTIONS no GENERIC_SECTION_TEMPLATES) = 3"
  by (simp add: dict_get_def SECTION_QUESTIONS_def GENERIC_SECTION_TEMPLATES_def)

lemma format_section_template:
  "t \<in> set (dict_get SECTION_QUESTIONS no GENERIC_SECTION_TEMPLATES) \<Longrightarrow>
   \<not> isl (format t [(''sign'', s), (''section'', n)])"
  by (auto simp add: dict_get_def SECTION_QUESTIONS_def GENERIC_SECTION_TEMPLATES_def
      format_def split: if_splits)

lemma keyword_templates_length:
  "length (KEYWORD_TEMPLATES @ SCENARIO_TEMPLATES) = 8"
  by (simp add: KEYWORD_TEMPLATES_def SCENARIO_TEMPLATES_def)

lemma format_keyword_template:
  "t \<in> set (KEYWORD_TEMPLATES @ SCENARIO_TEMPLATES) \<Longrightarrow>
   \<not> isl (format t [(''kw'', k), (''sign'', s)])"
  by (auto simp add: KEYWORD_TEMPLATES_def SCENARIO_TEMPLATES_def format_def)

lemma section_templates_run:
  "\<forall>t \<in> set ts. \<not> isl (format t [(''sign'', s), (''section'', n)]) \<Longrightarrow>
   section_templates img s n text ts qa =
     (None, qa @ map (\<lambda>t. \<lparr>qa_image = img,
                           qa_question = projr (format t [(''sign'', s), (''section'', n)]),
                           qa_answer = text\<rparr>) ts)"
proof (induction ts arbitrary: qa)
  case Nil
  then show ?case by simp
next
  case (Cons t ts)
  from Cons.prems obtain q where q: "format t [(''sign'', s), (''section'', n)] = Inr q"
    by (cases "format t [(''sign'', s), (''section'', n)]") auto
  from Cons.prems have "\<forall>t \<in> set ts. \<not> isl (format t [(''sign'', s), (''section'', n)])"
    by simp
  from Cons.IH [OF this] show ?case
    by (simp add: q)
qed

lemma keyword_templates_run:
  "\<forall>t \<in> set ts. \<not> isl (format t [(''kw'', k), (''sign'', s)]) \<Longrightarrow>
   keyword_templates img s k chosen ts qa =
     (None, qa @ map (\<lambda>t. \<lparr>qa_image = img,
                           qa_question = projr (format t [(''kw'', k), (''sign'', s)]),
                           qa_answer = keyword_answer s k chosen\<rparr>) ts)"
proof (induction ts arbitrary: qa)
  case Nil
  then show ?case by simp
next
  case (Cons t ts)
  from Cons.prems obtain q where q: "format t [(''kw'', k), (''sign'', s)] = Inr q"
    by (cases "format t [(''kw'', k), (''sign'', s)]") auto
  from Cons.prems have "\<forall>t \<in> set ts. \<not> isl (format t [(''kw'', k), (''sign'', s)])"
    by simp
  from Cons.IH [OF this] show ?case
    by (simp add: q)
qed

lemma sections_loop_step:
  "sections_loop img s ((no, text) # items) qa =
   sections_loop img s items
     (qa @ map (\<lambda>t. \<lparr>qa_image = img,
                      qa_question = projr (format t [(''sign'', s), (''section'', no)]),
                      qa_answer = text\<rparr>)
             (dict_get SECTION_QUESTIONS no GENERIC_SECTION_TEMPLATES))"
  by (simp add: section_templates_run format_section_template)

lemma sections_loop_run:
  "\<exists>new. sections_loop img s sections qa = (None, qa @ new)
     \<and> length new = 3 * length sections
     \<and> (\<forall>r \<in> set new. qa_image r = img)"
proof (induction sections arbitrary: qa)
  case Nil
  then show ?case by simp
next
  case (Cons p ps)
  obtain no bd where p: "p = (no, bd)" by (cases p)
  let ?block = "map (\<lambda>t. \<lparr>qa_image = img,
                      qa_question = projr (format t [(''sign'', s), (''section'', no)]),
                      qa_answer = bd\<rparr>)
             (dict_get SECTION_QUESTIONS no GENERIC_SECTION_TEMPLATES)"
  from Cons.IH [of "qa @ ?block"] obtain new where
    new: "sections_loop img s ps (qa @ ?block) = (None, (qa @ ?block) @ new)"
      "length new = 3 * length ps" "\<forall>r \<in> set new. qa_image r = img"
    by blast
  have "sections_loop img s (p # ps) qa = (None, qa @ (?block @ new))"
    unfolding p sections_loop_step using new(1) by simp
  moreover have "length (?block @ new) = 3 * length (p # ps)"
    using new(2) by (simp add: section_templates_length)
  moreover have "\<forall>r \<in> set (?block @ new). qa_image r = img"
    using new(3) by auto
  ultimately show ?case by blast
qed

lemma choose_section_value:
  "choose_section g sections =
    Inr (if sections = [] then (''Refer to sign rules.'', g)
         else (map snd sections ! (tape g (pos g) mod length sections),
               g\<lparr>pos := Suc (pos g)\<rparr>))"
  by (simp add: choose_section_def random_choice_def randbelow_def)

lemma keywords_loop_step:
  "choose_section g sections = Inr (chosen, g1) \<Longrightarrow>
   keywords_loop g img s sections (kw # kws) qa =
   keywords_loop g1 img s sections kws
     (qa @ map (\<lambda>t. \<lparr>qa_image = img,
                      qa_question = projr (format t [(''kw'', kw), (''sign'', s)]),
                      qa_answer = keyword_answer s kw chosen\<rparr>)
             (KEYWORD_TEMPLATES @ SCENARIO_TEMPLATES))"
  by (simp add: keyword_templates_run format_keyword_template del: set_append)

lemma keywords_loop_run:
  "\<exists>new g'. keywords_loop g img s sections kws qa = (None, qa @ new, g')
     \<and> length new = 8 * length kws
     \<and> (\<forall>r \<in> set new. qa_image r = img)"
proof (induction kws arbitrary: g qa)
  case Nil
  then show ?case by simp
next
  case (Cons kw kws)
  obtain chosen g1 where c: "choose_section g sections = Inr (chosen, g1)"
    using choose_section_value [of g sections] by (cases "sections = []") auto
  let ?block = "map (\<lambda>t. \<lparr>qa_image = img,
                      qa_question = projr (format t [(''kw'', kw), (''sign'', s)]),
                      qa_answer = keyword_answer s kw chosen\<rparr>)
             (KEYWORD_TEMPLATES @ SCENARIO_TEMPLATES)"
  from Cons.IH [of g1 "qa @ ?block"] obtain new g' where
    new: "keywords_loop g1 img s sections kws (qa @ ?block) = (None, (qa @ ?block) @ new, g')"
      "length new = 8 * length kws" "\<forall>r \<in> set new. qa_image r = img"
    by blast
  have "keywords_loop g img s sections (kw # kws) qa = (None, qa @ (?block @ new), g')"
    unfolding keywords_loop_step [OF c] using new(1) by simp
  moreover have "length (?block @ new) = 8 * length (kw # kws)"
    using new(2) keyword_templates_length by simp
  moreover have "\<forall>r \<in> set (?block @ new). qa_image r = img"
    using new(3) by auto
  ultimately show ?case by blast
qed

lemma sample_loop_length:
  "k \<le> length pool \<Longrightarrow> length (fst (sample_loop g pool k)) = k"
proof (induction k arbitrary: g pool)
  case 0
  then show ?case by simp
next
  case (Suc k)
  let ?j = "tape g (pos g) mod length pool"
  from Suc.prems have pos: "0 < length pool" by (cases pool) auto
  then have "?j < length pool" by simp
  then have "length (take ?j pool @ drop (Suc ?j) pool) = length pool - 1"
    by simp
  with Suc.prems have "k \<le> length (take ?j pool @ drop (Suc ?j) pool)"
    by simp
  from Suc.IH [OF this, of "g\<lparr>pos := Suc (pos g)\<rparr>"] show ?case
    by (auto simp add: randbelow_def split: prod.splits)
qed

lemma random_sample_keywords:
  "random_sample g kws (min (length kws) 5) =
    Inr (sample_loop g kws (min (length kws) 5))"
  by (simp add: random_sample_def)

lemma expand_entry_run:
  "\<exists>new g'. expand_entry g img s sections kws qa = (None, qa @ new, g')
     \<and> length new = 3 * length sections + 8 * min (length kws) 5
     \<and> (\<forall>r \<in> set new. qa_image r = img)"
proof -
  obtain new1 where
    n1: "sections_loop img s sections qa = (None, qa @ new1)"
      "length new1 = 3 * length sections" "\<forall>r \<in> set new1. qa_image r = img"
    using sections_loop_run by blast
  obtain sampled g1 where
    sm: "sample_loop g kws (min (length kws) 5) = (sampled, g1)"
    by (cases "sample_loop g kws (min (length kws) 5)")
  have ls: "length sampled = min (length kws) 5"
    using sample_loop_length [of "min (length kws) 5" kws g] sm by simp
  obtain new2 g' where
    n2: "keywords_loop g1 img s sections sampled (qa @ new1) = (None, (qa @ new1) @ new2, g')"
      "length new2 = 8 * length sampled" "\<forall>r \<in> set new2. qa_image r = img"
    using keywords_loop_run by blast
  have "expand_entry g img s sections kws qa = (None, qa @ (new1 @ new2), g')"
    by (simp add: expand_entry_def n1(1) random_sample_keywords sm n2(1))
  moreover have "length (new1 @ new2) = 3 * length sections + 8 * min (length kws) 5"
    using n1(2) n2(2) ls by simp
  moreover have "\<forall>r \<in> set (new1 @ new2). qa_image r = img"
    using n1(3) n2(3) by auto
  ultimately show ?thesis by blast
qed

lemma try_body_string:
  "try_body g img (JStr t) qa =
    expand_entry g img
      (case re_search sign_match_at t of Some n \<Rightarrow> strip n | None \<Rightarrow> ''Unknown'')
      (collect_sections (section_matches t) []) (extract_keywords (JStr t)) qa"
  by (simp add: try_body_def extract_flowchart_sections_def)

lemma try_body_not_string:
  "(\<And>t. gt \<noteq> JStr t) \<Longrightarrow> try_body g img gt qa = (Some TypeError, qa, g)"
  by (cases gt) (auto simp add: try_body_def extract_flowchart_sections_def)

lemma try_body_raises:
  "try_body g img gt qa = (Some e, qa', g') \<Longrightarrow>
   (\<forall>t. gt \<noteq> JStr t) \<and> e = TypeError \<and> qa' = qa \<and> g' = g"
proof (cases "\<exists>t. gt = JStr t")
  case True
  then obtain t where t: "gt = JStr t" by blast
  assume a: "try_body g img gt qa = (Some e, qa', g')"
  obtain new g2 where "try_body g img gt qa = (None, qa @ new, g2)"
    unfolding t try_body_string using expand_entry_run by blast
  with a show ?thesis by simp
next
  case False
  assume a: "try_body g img gt qa = (Some e, qa', g')"
  from False have "try_body g img gt qa = (Some TypeError, qa, g)"
    by (intro try_body_not_string) blast
  with a False show ?thesis by simp
qed

lemma keyword_answer_suffix: "suffix chosen (keyword_answer s k chosen)"
  unfolding keyword_answer_def suffix_def by (rule exI [of _ "''In the context of the '' @ [squote] @ s @ [squote] @ '' sign, the keyword '' @ [squote] @ k @ [squote] @ '' relates to: ''"]) simp

section \<open>Properties of the loader and the extractor\<close>

lemma py_in_object:
  "py_in k (JObj kvs) = Inr (\<not> isl (subscript (JObj kvs) k))"
proof (cases "map_of kvs k")
  case None
  then have "k \<notin> fst ` set kvs" by (simp add: map_of_eq_None_iff)
  with None show ?thesis by simp
next
  case (Some v)
  then have "k \<in> fst ` set kvs"
    using map_of_eq_None_iff [of kvs k] by auto
  with Some show ?thesis by simp
qed

lemma check_entries_objects:
  "\<forall>entry \<in> set es. \<exists>kvs. entry = JObj kvs \<Longrightarrow>
   check_entries es =
     (if \<forall>entry \<in> set es. \<not> isl (subscript entry ''image'')
           \<and> \<not> isl (subscript entry ''ground_truth'')
      then Inr () else Inl (ValueError entry_message))"
proof (induction es)
  case Nil
  then show ?case by simp
next
  case (Cons entry es)
  then obtain kvs where kvs: "entry = JObj kvs" by auto
  from Cons have IH: "check_entries es =
     (if \<forall>entry \<in> set es. \<not> isl (subscript entry ''image'')
           \<and> \<not> isl (subscript entry ''ground_truth'')
      then Inr () else Inl (ValueError entry_message))"
    by simp
  show ?case
    unfolding kvs check_entries.simps py_in_object IH by auto
qed

lemma dict_set_map_of: "map_of (dict_set k v d) = (map_of d)(k \<mapsto> v)"
  by (induction d) (auto simp: fun_eq_iff)

lemma dict_set_keys: "fst ` set (dict_set k v d) = insert k (fst ` set d)"
  by (induction d) auto

lemma dict_set_distinct: "distinct (map fst d) \<Longrightarrow> distinct (map fst (dict_set k v d))"
proof (induction d)
  case Nil
  then show ?case by simp
next
  case (Cons p d)
  have "fst p \<notin> fst ` set (dict_set k v d)" if "fst p \<noteq> k"
    using Cons.prems that dict_set_keys [of k v d] by auto
  with Cons show ?case by auto
qed

lemma collect_sections_map_of:
  "map_of (collect_sections ms d) =
   map_of (rev (map (\<lambda>(title, body). (strip title, sub_spaces (strip body))) ms) @ d)"
proof (induction ms arbitrary: d)
  case Nil
  then show ?case by simp
next
  case (Cons m ms)
  obtain title body where m: "m = (title, body)" by (cases m)
  show ?case
    unfolding m by (simp add: Cons.IH dict_set_map_of map_add_def fun_eq_iff split: option.splits)
qed

lemma collect_sections_keys:
  "fst ` set (collect_sections ms d) = fst ` set d \<union> (strip \<circ> fst) ` set ms"
proof (induction ms arbitrary: d)
  case Nil
  then show ?case by simp
next
  case (Cons m ms)
  obtain title body where m: "m = (title, body)" by (cases m)
  show ?case
    unfolding m by (auto simp add: Cons.IH dict_set_keys)
qed

lemma collect_sections_distinct:
  "distinct (map fst d) \<Longrightarrow> distinct (map fst (collect_sections ms d))"
proof (induction ms arbitrary: d)
  case Nil
  then show ?case by simp
next
  case (Cons m ms)
  obtain title body where m: "m = (title, body)" by (cases m)
  from Cons.prems show ?case
    unfolding m by (simp add: Cons.IH dict_set_distinct)
qed

lemma distinct_keys_filter:
  "distinct (map fst d) \<Longrightarrow> map_of d k = Some v \<Longrightarrow>
   length (filter (\<lambda>p. fst p = k) d) = 1"
proof (induction d)
  case Nil
  then show ?case by simp
next
  case (Cons p d)
  show ?case
  proof (cases "fst p = k")
    case True
    from Cons.prems(1) have "fst p \<notin> fst ` set d" by simp
    with True have "\<forall>q \<in> set d. fst q \<noteq> k" by (metis imageI)
    then have "filter (\<lambda>p. fst p = k) d = []" by (simp add: filter_empty_conv)
    with True show ?thesis by simp
  next
    case False
    with Cons.prems have "map_of d k = Some v" by (cases p) auto
    with Cons False show ?thesis by simp
  qed
qed

lemma lazy_name_sound:
  "lazy_name s = Some (n, r) \<Longrightarrow> s = n @ tag_close @ r \<and> newline \<notin> set n"
proof (induction s arbitrary: n r)
  case Nil
  then show ?case by simp
next
  case (Cons c cs)
  show ?case
  proof (cases "prefix tag_close (c # cs)")
    case True
    with Cons.prems have "n = []" "r = drop (length tag_close) (c # cs)" by simp_all
    moreover from True have "c # cs = tag_close @ drop (length tag_close) (c # cs)"
      by (metis append_eq_conv_conj prefixE)
    ultimately show ?thesis by simp
  next
    case False
    with Cons.prems have nl: "c \<noteq> newline" by (auto split: if_splits)
    with False Cons.prems obtain n' where "lazy_name cs = Some (n', r)" "n = c # n'"
      by auto
    with Cons.IH [of n' r] nl show ?thesis by simp
  qed
qed

lemma name_group_sound:
  "name_group s = Some (n, r) \<Longrightarrow> s = n @ tag_close @ r \<and> n \<noteq> [] \<and> newline \<notin> set n"
proof (cases s)
  case Nil
  assume "name_group s = Some (n, r)"
  with Nil show ?thesis by (simp add: name_group_def)
next
  case (Cons c cs)
  assume a: "name_group s = Some (n, r)"
  with Cons have nl: "c \<noteq> newline" by (auto simp: name_group_def split: if_splits)
  with a Cons obtain n' where "lazy_name cs = Some (n', r)" "n = c # n'"
    by (auto simp: name_group_def)
  with lazy_name_sound [of cs n' r] nl Cons show ?thesis by simp
qed

lemma sign_match_at_sound:
  "sign_match_at s = Some n \<Longrightarrow>
   \<exists>r. s = sign_open @ n @ tag_close @ r \<and> n \<noteq> [] \<and> newline \<notin> set n"
proof -
  assume a: "sign_match_at s = Some n"
  then have p: "prefix sign_open s" by (auto simp: sign_match_at_def split: if_splits)
  with a obtain r where g: "name_group (drop (length sign_open) s) = Some (n, r)"
    by (auto simp: sign_match_at_def)
  from p have "s = sign_open @ drop (length sign_open) s"
    by (metis append_eq_conv_conj prefixE)
  with name_group_sound [OF g] show ?thesis by metis
qed

lemma re_search_sound:
  "re_search m s = Some x \<Longrightarrow> \<exists>pre suf. s = pre @ suf \<and> m suf = Some x"
proof (induction s)
  case Nil
  then show ?case by simp
next
  case (Cons c cs)
  show ?case
  proof (cases "m (c # cs)")
    case None
    with Cons.prems have "re_search m cs = Some x" by simp
    from Cons.IH [OF this] obtain pre suf where "cs = pre @ suf" "m suf = Some x" by blast
    then have "c # cs = (c # pre) @ suf \<and> m suf = Some x" by simp
    then show ?thesis by blast
  next
    case (Some y)
    with Cons.prems have "m (c # cs) = Some x" by simp
    then have "c # cs = [] @ (c # cs) \<and> m (c # cs) = Some x" by simp
    then show ?thesis by blast
  qed
qed

lemma sign_search_sound:
  "re_search sign_match_at t = Some n \<Longrightarrow>
   \<exists>pre post. t = pre @ sign_open @ n @ tag_close @ post \<and> n \<noteq> [] \<and> newline \<notin> set n"
proof -
  assume "re_search sign_match_at t = Some n"
  from re_search_sound [OF this] obtain pre suf where
    t: "t = pre @ suf" and m: "sign_match_at suf = Some n" by blast
  from sign_match_at_sound [OF m] obtain r where
    "suf = sign_open @ n @ tag_close @ r" "n \<noteq> []" "newline \<notin> set n" by blast
  with t show ?thesis by blast
qed

lemma sublist_quoted_ConsI: "sublist xs ys \<Longrightarrow> sublist xs (y # ys)"
  by (simp add: sublist_Cons_right)

lemma sublist_quoted_appendI: "sublist xs zs \<Longrightarrow> sublist xs (ys @ zs)"
  by (metis append_Nil sublist_append_leftI sublist_appendI sublist_order.order.trans)

lemma sublist_quoted_here: "sublist (q # s @ [q]) (q # s @ q # rest)"
proof -
  have "q # s @ q # rest = [] @ (q # s @ [q]) @ rest" by simp
  then show ?thesis unfolding sublist_def by blast
qed

lemma format_section_template_sign:
  "t \<in> set (dict_get SECTION_QUESTIONS no GENERIC_SECTION_TEMPLATES) \<Longrightarrow>
   sublist (squote # s @ [squote]) (projr (format t [(''sign'', s), (''section'', n)]))"
  apply (auto simp add: dict_get_def SECTION_QUESTIONS_def GENERIC_SECTION_TEMPLATES_def
      format_def squote_def split: if_splits)
  apply (rule sublist_quoted_here | rule sublist_quoted_ConsI | rule sublist_quoted_appendI)+
  done

lemma format_keyword_template_sign:
  "t \<in> set (KEYWORD_TEMPLATES @ SCENARIO_TEMPLATES) \<Longrightarrow>
   sublist (squote # s @ [squote]) (projr (format t [(''kw'', k), (''sign'', s)]))"
  apply (auto simp add: KEYWORD_TEMPLATES_def SCENARIO_TEMPLATES_def format_def squote_def)
  apply (rule sublist_quoted_here | rule sublist_quoted_ConsI | rule sublist_quoted_appendI)+
  done

lemma keyword_answer_sign:
  "sublist (squote # s @ [squote]) (keyword_answer s k chosen)"
proof -
  have "keyword_answer s k chosen =
      ''In the context of the '' @ (squote # s @ [squote])
        @ ('' sign, the keyword '' @ [squote] @ k @ [squote] @ '' relates to: '' @ chosen)"
    by (simp add: keyword_answer_def)
  then show ?thesis unfolding sublist_def by blast
qed

lemma sections_loop_all:
  assumes "\<And>no bd t. (no, bd) \<in> set items \<Longrightarrow>
      t \<in> set (dict_get SECTION_QUESTIONS no GENERIC_SECTION_TEMPLATES) \<Longrightarrow>
      P \<lparr>qa_image = img, qa_question = projr (format t [(''sign'', s), (''section'', no)]),
         qa_answer = bd\<rparr>"
  shows "\<exists>new. sections_loop img s items qa = (None, qa @ new) \<and> (\<forall>r \<in> set new. P r)"
  using assms
proof (induction items arbitrary: qa)
  case Nil
  then show ?case by simp
next
  case (Cons p ps)
  obtain no bd where p: "p = (no, bd)" by (cases p)
  let ?block = "map (\<lambda>t. \<lparr>qa_image = img,
                      qa_question = projr (format t [(''sign'', s), (''section'', no)]),
                      qa_answer = bd\<rparr>)
             (dict_get SECTION_QUESTIONS no GENERIC_SECTION_TEMPLATES)"
  have b: "\<forall>r \<in> set ?block. P r"
    using Cons.prems [of no bd] p by auto
  from Cons.IH [of "qa @ ?block"] Cons.prems obtain new where
    new: "sections_loop img s ps (qa @ ?block) = (None, (qa @ ?block) @ new)"
      "\<forall>r \<in> set new. P r"
    by auto
  have "sections_loop img s (p # ps) qa = (None, qa @ (?block @ new))"
    unfolding p sections_loop_step using new(1) by simp
  moreover have "\<forall>r \<in> set (?block @ new). P r"
    using b new(2) by auto
  ultimately show ?case by blast
qed

lemma keywords_loop_all:
  assumes "\<And>kw chosen t. t \<in> set (KEYWORD_TEMPLATES @ SCENARIO_TEMPLATES) \<Longrightarrow>
      P \<lparr>qa_image = img, qa_question = projr (format t [(''kw'', kw), (''sign'', s)]),
         qa_answer = keyword_answer s kw chosen\<rparr>"
  shows "\<exists>new g'. keywords_loop g img s sections kws qa = (None, qa @ new, g')
      \<and> (\<forall>r \<in> set new. P r)"
proof (induction kws arbitrary: g qa)
  case Nil
  then show ?case by simp
next
  case (Cons kw kws)
  obtain chosen g1 where c: "choose_section g sections = Inr (chosen, g1)"
    using choose_section_value [of g sections] by (cases "sections = []") auto
  let ?block = "map (\<lambda>t. \<lparr>qa_image = img,
                      qa_question = projr (format t [(''kw'', kw), (''sign'', s)]),
                      qa_answer = keyword_answer s kw chosen\<rparr>)
             (KEYWORD_TEMPLATES @ SCENARIO_TEMPLATES)"
  have b: "\<forall>r \<in> set ?block. P r"
    using assms [of _ kw chosen] by auto
  from Cons.IH [of g1 "qa @ ?block"] obtain new g' where
    new: "keywords_loop g1 img s sections kws (qa @ ?block) = (None, (qa @ ?block) @ new, g')"
      "\<forall>r \<in> set new. P r"
    by blast
  have "keywords_loop g img s sections (kw # kws) qa = (None, qa @ (?block @ new), g')"
    unfolding keywords_loop_step [OF c] using new(1) by simp
  moreover have "\<forall>r \<in> set (?block @ new). P r"
    using b new(2) by auto
  ultimately show ?case by blast
qed

lemma expand_entry_all:
  assumes "\<And>no bd t. (no, bd) \<in> set sections \<Longrightarrow>
      t \<in> set (dict_get SECTION_QUESTIONS no GENERIC_SECTION_TEMPLATES) \<Longrightarrow>
      P \<lparr>qa_image = img, qa_question = projr (format t [(''sign'', s), (''section'', no)]),
         qa_answer = bd\<rparr>"
    and "\<And>kw chosen t. t \<in> set (KEYWORD_TEMPLATES @ SCENARIO_TEMPLATES) \<Longrightarrow>
      P \<lparr>qa_image = img, qa_question = projr (format t [(''kw'', kw), (''sign'', s)]),
         qa_answer = keyword_answer s kw chosen\<rparr>"
  shows "\<exists>new g'. expand_entry g img s sections kws qa = (None, qa @ new, g')
      \<and> (\<forall>r \<in> set new. P r)"
proof -
  obtain new1 where
    n1: "sections_loop img s sections qa = (None, qa @ new1)" "\<forall>r \<in> set new1. P r"
    using sections_loop_all [of sections P img s qa] assms(1) by blast
  obtain sampled g1 where
    sm: "sample_loop g kws (min (length kws) 5) = (sampled, g1)"
    by (cases "sample_loop g kws (min (length kws) 5)")
  obtain new2 g' where
    n2: "keywords_loop g1 img s sections sampled (qa @ new1) = (None, (qa @ new1) @ new2, g')"
      "\<forall>r \<in> set new2. P r"
    using keywords_loop_all [of P img s g1 sections sampled "qa @ new1"] assms(2) by blast
  have "expand_entry g img s sections kws qa = (None, qa @ (new1 @ new2), g')"
    by (simp add: expand_entry_def n1(1) random_sample_keywords sm n2(1))
  moreover have "\<forall>r \<in> set (new1 @ new2). P r"
    using n1(2) n2(2) by auto
  ultimately show ?thesis by blast
qed

text \<open>
  On a sequence whose elements are all objects, the loader fails with the validation
  error exactly when some element lacks one of the two keys.
\<close>

lemma load_handbook_objects:
  "load_handbook (Inl e) = Inl e
   \<and> ((\<forall>es. data \<noteq> JArr es) \<longrightarrow>
        load_handbook (Inr data) = Inl (ValueError ''Handbook data should be a list.''))
   \<and> ((\<forall>entry \<in> set es. \<exists>kvs. entry = JObj kvs) \<longrightarrow>
        load_handbook (Inr (JArr es)) =
          (if \<forall>entry \<in> set es. \<not> isl (subscript entry ''image'')
                \<and> \<not> isl (subscript entry ''ground_truth'')
           then Inr es else Inl (ValueError entry_message)))"
proof (intro conjI impI)
  show "load_handbook (Inl e) = Inl e"
    by (simp add: load_handbook_def)
next
  assume "\<forall>es. data \<noteq> JArr es"
  then show "load_handbook (Inr data) = Inl (ValueError ''Handbook data should be a list.'')"
    by (cases data) (simp_all add: load_handbook_def)
next
  assume "\<forall>entry \<in> set es. \<exists>kvs. entry = JObj kvs"
  from check_entries_objects [OF this]
  show "load_handbook (Inr (JArr es)) =
          (if \<forall>entry \<in> set es. \<not> isl (subscript entry ''image'')
                \<and> \<not> isl (subscript entry ''ground_truth'')
           then Inr es else Inl (ValueError entry_message))"
    by (simp add: load_handbook_def)
qed

section \<open>Closed forms of the loops\<close>

lemma map_projr_formatted:
  "map f ts = map Inr qs \<Longrightarrow> map (\<lambda>t. h (projr (f t))) ts = map h qs"
proof -
  assume a: "map f ts = map Inr qs"
  have "map (\<lambda>t. h (projr (f t))) ts = map (h \<circ> projr) (map f ts)" by simp
  also have "\<dots> = map h qs" unfolding a by simp
  finally show ?thesis .
qed

lemma formatted_not_isl:
  "map f ts = map Inr qs \<Longrightarrow> \<forall>t \<in> set ts. \<not> isl (f t)"
proof
  fix t
  assume a: "map f ts = map Inr qs" and t: "t \<in> set ts"
  then have "f t \<in> set (map Inr qs)" by (metis image_eqI set_map)
  then show "\<not> isl (f t)" by auto
qed

lemma section_templates_closed:
  assumes "map (\<lambda>t. format t [(''sign'', s), (''section'', n)]) ts = map Inr qs"
  shows "section_templates img s n bd ts qa =
    (None, qa @ map (\<lambda>q. \<lparr>qa_image = img, qa_question = q, qa_answer = bd\<rparr>) qs)"
  using section_templates_run [OF formatted_not_isl [OF assms], of img bd qa]
    map_projr_formatted [OF assms,
      of "\<lambda>q. \<lparr>qa_image = img, qa_question = q, qa_answer = bd\<rparr>"]
  by simp

lemma keyword_templates_closed:
  assumes "map (\<lambda>t. format t [(''kw'', k), (''sign'', s)]) ts = map Inr qs"
  shows "keyword_templates img s k chosen ts qa =
    (None, qa @ map (\<lambda>q. \<lparr>qa_image = img, qa_question = q,
                            qa_answer = keyword_answer s k chosen\<rparr>) qs)"
  using keyword_templates_run [OF formatted_not_isl [OF assms], of img chosen qa]
    map_projr_formatted [OF assms,
      of "\<lambda>q. \<lparr>qa_image = img, qa_question = q, qa_answer = keyword_answer s k chosen\<rparr>"]
  by simp

lemma sections_loop_closed:
  assumes "\<And>n. map (\<lambda>t. format t [(''sign'', s), (''section'', n)])
      (dict_get SECTION_QUESTIONS n GENERIC_SECTION_TEMPLATES) = map Inr (Q n)"
  shows "sections_loop img s sections qa =
    (None,
     qa @ concat (map (\<lambda>(n, bd).
            map (\<lambda>q. \<lparr>qa_image = img, qa_question = q, qa_answer = bd\<rparr>) (Q n))
          sections))"
proof (induction sections arbitrary: qa)
  case Nil
  then show ?case by simp
next
  case (Cons p ps)
  obtain n bd where p: "p = (n, bd)" by (cases p)
  show ?case
    unfolding p by (simp add: section_templates_closed [OF assms] Cons.IH)
qed

lemma map_enumerate_snd: "map (\<lambda>(p, k). f k) (enumerate n xs) = map f xs"
  by (induction xs arbitrary: n) auto

lemma keywords_loop_step_closed:
  assumes "\<And>k. map (\<lambda>t. format t [(''kw'', k), (''sign'', s)])
      (KEYWORD_TEMPLATES @ SCENARIO_TEMPLATES) = map Inr (Q k)"
    and "choose_section g sections = Inr (chosen, g1)"
  shows "keywords_loop g img s sections (k # kws) qa =
    keywords_loop g1 img s sections kws
      (qa @ map (\<lambda>q. \<lparr>qa_image = img, qa_question = q,
                        qa_answer = keyword_answer s k chosen\<rparr>) (Q k))"
  using keywords_loop_step [OF assms(2), of img s k kws qa]
    map_projr_formatted [OF assms(1) [of k],
      of "\<lambda>q. \<lparr>qa_image = img, qa_question = q, qa_answer = keyword_answer s k chosen\<rparr>"]
  by simp

lemma keywords_loop_closed:
  assumes "\<And>k. map (\<lambda>t. format t [(''kw'', k), (''sign'', s)])
      (KEYWORD_TEMPLATES @ SCENARIO_TEMPLATES) = map Inr (Q k)"
  shows "keywords_loop g img s sections kws qa =
    (None,
     qa @ concat (map (\<lambda>(p, k).
            map (\<lambda>q. \<lparr>qa_image = img, qa_question = q,
                        qa_answer = keyword_answer s k
                          (if sections = [] then ''Refer to sign rules.''
                           else map snd sections ! (tape g p mod length sections))\<rparr>)
              (Q k))
          (enumerate (pos g) kws)),
     if sections = [] then g else g\<lparr>pos := pos g + length kws\<rparr>)"
proof (cases "sections = []")
  case True
  have c: "choose_section g sections = Inr (''Refer to sign rules.'', g)"
    using True by (simp add: choose_section_value)
  have "keywords_loop g img s sections kws qa =
    (None,
     qa @ concat (map (\<lambda>k.
            map (\<lambda>q. \<lparr>qa_image = img, qa_question = q,
                        qa_answer = keyword_answer s k ''Refer to sign rules.''\<rparr>)
              (Q k)) kws),
     g)"
  proof (induction kws arbitrary: qa)
    case Nil
    then show ?case by simp
  next
    case (Cons k kws)
    show ?case
      unfolding keywords_loop_step_closed [OF assms c] Cons.IH by simp
  qed
  with True show ?thesis by (simp add: map_enumerate_snd)
next
  case False
  show ?thesis
  proof (induction kws arbitrary: g qa)
    case Nil
    then show ?case by simp
  next
    case (Cons k kws)
    let ?g1 = "g\<lparr>pos := Suc (pos g)\<rparr>"
    from False have c: "choose_section g sections =
        Inr (map snd sections ! (tape g (pos g) mod length sections), ?g1)"
      by (simp add: choose_section_value)
    show ?case
      unfolding keywords_loop_step_closed [OF assms c] Cons.IH using False by simp
  qed
qed

lemma expand_entry_keywords:
  "expand_entry g img s sections keywords qa =
    (case sample_loop g keywords (min (length keywords) 5) of
       (sampled, g1) \<Rightarrow>
         keywords_loop g1 img s sections sampled (snd (sections_loop img s sections qa)))"
proof -
  obtain new where "sections_loop img s sections qa = (None, qa @ new)"
    using sections_loop_run by blast
  then show ?thesis
    by (simp add: expand_entry_def random_sample_keywords split: prod.splits)
qed

section \<open>The claims\<close>

text \<open>
  C1. The claim: for every entry and every sampled keyword every template of
  the combined keyword and scenario list is applied, the list holds 9 templates, and a
  sampled keyword yields exactly 9 question/answer pairs. The combined list holds 8
  templates (4 and 4), so the count of 9 fails: an entry with the six keywords K1 to K6
  and no section yields 5 times 8 records, not 5 times 9.
\<close>

theorem nine_pairs_per_keyword_counterexample:
  "length (KEYWORD_TEMPLATES @ SCENARIO_TEMPLATES) \<noteq> 9
   \<and> extract_keywords (JStr ''KEY WORDS: \"K1\", \"K2\", \"K3\", \"K4\", \"K5\", \"K6\"'')
       = [''K1'', ''K2'', ''K3'', ''K4'', ''K5'', ''K6'']
   \<and> length (fst (snd (try_body zero_rng (JStr ''a.png'')
        (JStr ''KEY WORDS: \"K1\", \"K2\", \"K3\", \"K4\", \"K5\", \"K6\"'') []))) = 5 * 8
   \<and> length (fst (snd (try_body zero_rng (JStr ''a.png'')
        (JStr ''KEY WORDS: \"K1\", \"K2\", \"K3\", \"K4\", \"K5\", \"K6\"'') []))) \<noteq> 5 * 9"
  by code_simp

text \<open>
  C1, as amended: the combined list holds 8 templates, every one of them formats without
  an exception for every keyword and sign name, and the loop over the templates appends
  for one keyword exactly one record per template, 8 records, each with the entry's
  image, the template's question and the keyword answer; the loop over the sampled
  keywords ends without an exception and appends 8 records per sampled keyword.
\<close>

theorem keyword_pairs_per_keyword:
  "length (KEYWORD_TEMPLATES @ SCENARIO_TEMPLATES) = 8
   \<and> list_all (\<lambda>t. \<not> isl (format t [(''kw'', kw), (''sign'', sign_name)]))
        (KEYWORD_TEMPLATES @ SCENARIO_TEMPLATES)
   \<and> keyword_templates img_path sign_name kw chosen_section
        (KEYWORD_TEMPLATES @ SCENARIO_TEMPLATES) qa_pairs =
      (None,
       qa_pairs @
       map (\<lambda>t. \<lparr>qa_image = img_path,
                   qa_question = projr (format t [(''kw'', kw), (''sign'', sign_name)]),
                   qa_answer = keyword_answer sign_name kw chosen_section\<rparr>)
         (KEYWORD_TEMPLATES @ SCENARIO_TEMPLATES))
   \<and> length (snd (keyword_templates img_path sign_name kw chosen_section
        (KEYWORD_TEMPLATES @ SCENARIO_TEMPLATES) qa_pairs)) = length qa_pairs + 8
   \<and> (\<exists>new g'.
        keywords_loop g img_path sign_name sections sampled_keywords qa_pairs =
          (None, qa_pairs @ new, g')
        \<and> length new = 8 * length sampled_keywords)"
proof -
  have ok: "\<forall>t \<in> set (KEYWORD_TEMPLATES @ SCENARIO_TEMPLATES).
      \<not> isl (format t [(''kw'', kw), (''sign'', sign_name)])"
    using format_keyword_template by blast
  have run: "keyword_templates img_path sign_name kw chosen_section
        (KEYWORD_TEMPLATES @ SCENARIO_TEMPLATES) qa_pairs =
      (None,
       qa_pairs @
       map (\<lambda>t. \<lparr>qa_image = img_path,
                   qa_question = projr (format t [(''kw'', kw), (''sign'', sign_name)]),
                   qa_answer = keyword_answer sign_name kw chosen_section\<rparr>)
         (KEYWORD_TEMPLATES @ SCENARIO_TEMPLATES))"
    using ok by (rule keyword_templates_run)
  have len: "length (snd (keyword_templates img_path sign_name kw chosen_section
        (KEYWORD_TEMPLATES @ SCENARIO_TEMPLATES) qa_pairs)) = length qa_pairs + 8"
    unfolding run using keyword_templates_length by simp
  from ok have "list_all (\<lambda>t. \<not> isl (format t [(''kw'', kw), (''sign'', sign_name)]))
        (KEYWORD_TEMPLATES @ SCENARIO_TEMPLATES)"
    unfolding list_all_iff .
  moreover have "\<exists>new g'.
        keywords_loop g img_path sign_name sections sampled_keywords qa_pairs =
          (None, qa_pairs @ new, g')
        \<and> length new = 8 * length sampled_keywords"
    using keywords_loop_run [of g img_path sign_name sections sampled_keywords qa_pairs]
    by blast
  ultimately show ?thesis
    using keyword_templates_length run len by blast
qed

text \<open>
  C2. If the body of the \<^verbatim>\<open>try\<close> statement raises for an entry, the output
  list is the list as it was before the entry (no record of the entry, no partial
  record), the generator is untouched, and the loop goes on with the remaining entries as
  if the entry had not been there. The loops of the model keep what they appended before
  an exception; the theorem holds because the only exception is the \<^verbatim>\<open>TypeError\<close> of
  the extraction, raised before the first \<^verbatim>\<open>append\<close>. The two subscripts of the
  entry stand before the \<^verbatim>\<open>try\<close> statement; the theorem is about the entries on which
  they succeed, as every object with both keys.
\<close>

theorem failed_entry_emits_nothing:
  assumes "subscript entry ''image'' = Inr img_path"
    and "subscript entry ''ground_truth'' = Inr gt"
    and "try_body g img_path gt qa_pairs = (Some e, qa_pairs', g')"
  shows "qa_pairs' = qa_pairs \<and> g' = g
    \<and> entries_loop g (entry # es) qa_pairs = entries_loop g es qa_pairs"
proof -
  from assms(3) have "qa_pairs' = qa_pairs" "g' = g"
    using try_body_raises by blast+
  with assms show ?thesis by simp
qed

theorem failed_entry_emits_nothing_witness:
  "try_body zero_rng (JStr ''a.png'') JNull
     [\<lparr>qa_image = JStr ''b.png'', qa_question = ''q'', qa_answer = ''a''\<rparr>]
   = (Some TypeError,
      [\<lparr>qa_image = JStr ''b.png'', qa_question = ''q'', qa_answer = ''a''\<rparr>],
      zero_rng)
   \<and> entries_loop zero_rng
       [JObj [(''image'', JStr ''a.png''), (''ground_truth'', JNull)]]
       [\<lparr>qa_image = JStr ''b.png'', qa_question = ''q'', qa_answer = ''a''\<rparr>]
     = Inr ([\<lparr>qa_image = JStr ''b.png'', qa_question = ''q'', qa_answer = ''a''\<rparr>],
            zero_rng)"
proof -
  let ?g = "zero_rng"
  let ?qa = "[\<lparr>qa_image = JStr ''b.png'', qa_question = ''q'', qa_answer = ''a''\<rparr>]"
  let ?entry = "JObj [(''image'', JStr ''a.png''), (''ground_truth'', JNull)]"
  have a: "subscript ?entry ''image'' = Inr (JStr ''a.png'')" by simp
  have b: "subscript ?entry ''ground_truth'' = Inr JNull" by simp
  have c: "try_body ?g (JStr ''a.png'') JNull ?qa = (Some TypeError, ?qa, ?g)"
    by (simp add: try_body_def extract_flowchart_sections_def)
  from failed_entry_emits_nothing [OF a b c, of "[]"] c show ?thesis by simp
qed

text \<open>
  C3. The claim lets a section body end at a
  case-insensitive KEY WORD(S) marker. The lookahead of the section pattern is the
  literal \<^verbatim>\<open>KEY WORDS\<close>, while \<^verbatim>\<open>extract_keywords\<close> finds the marker under
  \<^verbatim>\<open>re.IGNORECASE\<close>: on a text with the marker \<^verbatim>\<open>Key Words\<close> the keywords are
  found and the body of the last section runs over the marker and the keyword list to the
  closing tag. With the marker in upper case the body ends before it.
\<close>

theorem lower_case_marker_does_not_end_body:
  "extract_flowchart_sections
     (JStr ''<traffic_sign name=\"Stop\"><section title=\"1\">Stop fully. Key Words: \"stop line\"</traffic_sign>'')
   = Inr (''Stop'', [(''1'', ''Stop fully. Key Words: \"stop line\"'')])
   \<and> extract_keywords
     (JStr ''<traffic_sign name=\"Stop\"><section title=\"1\">Stop fully. Key Words: \"stop line\"</traffic_sign>'')
   = [''stop line'']
   \<and> extract_flowchart_sections
     (JStr ''<traffic_sign name=\"Stop\"><section title=\"1\">Stop fully. KEY WORDS: \"stop line\"</traffic_sign>'')
   = Inr (''Stop'', [(''1'', ''Stop fully.'')])"
  by code_simp

text \<open>
  C4. For an entry whose \<^verbatim>\<open>try\<close> body ends without an exception, the
  records the body appended to the output list all carry the entry's \<^verbatim>\<open>image\<close> value,
  and the loop goes on with the list so extended.
\<close>

theorem emitted_image_is_entry_image:
  assumes "subscript entry ''image'' = Inr img_path"
    and "subscript entry ''ground_truth'' = Inr gt"
    and "try_body g img_path gt qa_pairs = (None, qa_pairs', g')"
  shows "\<exists>new. qa_pairs' = qa_pairs @ new
    \<and> (\<forall>r \<in> set new. qa_image r = img_path)
    \<and> entries_loop g (entry # es) qa_pairs = entries_loop g' es (qa_pairs @ new)"
proof -
  have "\<exists>t. gt = JStr t"
  proof (rule ccontr)
    assume "\<not> (\<exists>t. gt = JStr t)"
    then have "try_body g img_path gt qa_pairs = (Some TypeError, qa_pairs, g)"
      by (intro try_body_not_string) blast
    with assms(3) show False by simp
  qed
  then obtain t where t: "gt = JStr t" by blast
  obtain new g2 where new: "try_body g img_path gt qa_pairs = (None, qa_pairs @ new, g2)"
    "\<forall>r \<in> set new. qa_image r = img_path"
    unfolding t try_body_string using expand_entry_run by blast
  with assms(3) have "qa_pairs' = qa_pairs @ new" "g' = g2" by simp_all
  moreover have "entries_loop g (entry # es) qa_pairs = entries_loop g' es qa_pairs'"
    using assms by simp
  ultimately show ?thesis using new(2) by blast
qed

theorem emitted_image_is_entry_image_witness:
  "\<exists>new. fst (snd (try_body zero_rng (JStr ''a.png'')
        (JStr ''<section title=\"1\">Stop fully.</traffic_sign>'') [])) = new
     \<and> length new = 3
     \<and> (\<forall>r \<in> set new. qa_image r = JStr ''a.png'')"
proof -
  let ?g = "zero_rng"
  let ?gt = "JStr ''<section title=\"1\">Stop fully.</traffic_sign>''"
  let ?entry = "JObj [(''image'', JStr ''a.png''), (''ground_truth'', ?gt)]"
  let ?r = "try_body ?g (JStr ''a.png'') ?gt []"
  have a: "subscript ?entry ''image'' = Inr (JStr ''a.png'')" by simp
  have b: "subscript ?entry ''ground_truth'' = Inr ?gt" by simp
  have "fst ?r = None" by code_simp
  then have c: "?r = (None, fst (snd ?r), snd (snd ?r))"
    by (metis prod.collapse)
  have l: "length (fst (snd ?r)) = 3" by code_simp
  from emitted_image_is_entry_image [OF a b c, of "[]"] l show ?thesis by auto
qed

text \<open>
  C5. For every extracted section the template set is the one stored under the section
  identifier when the identifier is one of "1" to "4", and the generic set otherwise;
  either set holds 3 templates, which format to the 3 questions written out below. The
  section's pass through the template loop appends one record per question, whose answer
  is the section's body text as it stands; the loop over the sections ends without an
  exception and appends exactly these 3 records for every section, in order, and the
  records of the entry start with them.
\<close>

theorem section_templates_instantiated:
  "let questions = (\<lambda>section_no.
        if section_no = ''1'' then
          [''What is the immediate action a driver should take when seeing the '' @ [squote] @ sign_name @ [squote] @ '' sign?'',
           ''When is the '' @ [squote] @ sign_name @ [squote] @ '' sign typically used?'',
           ''What safety rule does section '' @ section_no @ '' enforce in the '' @ [squote] @ sign_name @ [squote] @ '' sign?'']
        else if section_no = ''2'' then
          [''What should a driver do at a '' @ [squote] @ sign_name @ [squote] @ '' when there is no stop line?'',
           ''How does a driver react to a '' @ [squote] @ sign_name @ [squote] @ '' when there'' @ [squote] @ ''s a pedestrian crossing?'',
           ''What does section '' @ section_no @ '' of the '' @ [squote] @ sign_name @ [squote] @ '' sign indicate?'']
        else if section_no = ''3'' then
          [''How should the driver behave in construction zones near a '' @ [squote] @ sign_name @ [squote] @ ''?'',
           ''What does the '' @ [squote] @ sign_name @ [squote] @ '' indicate at a railway crossing?'',
           ''What special caution is required in section '' @ section_no @ '' of the '' @ [squote] @ sign_name @ [squote] @ '' sign?'']
        else if section_no = ''4'' then
          [''When is it prohibited to stop near a '' @ [squote] @ sign_name @ [squote] @ ''?'',
           ''What are unsafe stopping locations for a driver near a '' @ [squote] @ sign_name @ [squote] @ ''?'',
           ''Why must a driver be extra careful around section '' @ section_no @ '' of the '' @ [squote] @ sign_name @ [squote] @ '' sign?'']
        else
          [''What does section '' @ section_no @ '' of the '' @ [squote] @ sign_name @ [squote] @ '' sign mean?'',
           ''Explain the rule under section '' @ section_no @ '' for the '' @ [squote] @ sign_name @ [squote] @ '' traffic sign.'',
           ''How should drivers behave according to section '' @ section_no @ '' of the '' @ [squote] @ sign_name @ [squote] @ '' sign?''])
   in (if section_no \<in> {''1'', ''2'', ''3'', ''4''}
       then map_of SECTION_QUESTIONS section_no =
         Some (dict_get SECTION_QUESTIONS section_no GENERIC_SECTION_TEMPLATES)
       else dict_get SECTION_QUESTIONS section_no GENERIC_SECTION_TEMPLATES =
         GENERIC_SECTION_TEMPLATES)
     \<and> length (dict_get SECTION_QUESTIONS section_no GENERIC_SECTION_TEMPLATES) = 3
     \<and> map (\<lambda>t. format t [(''sign'', sign_name), (''section'', section_no)])
          (dict_get SECTION_QUESTIONS section_no GENERIC_SECTION_TEMPLATES) =
        map Inr (questions section_no)
     \<and> length (questions section_no) = 3
     \<and> section_templates img_path sign_name section_no section_text
          (dict_get SECTION_QUESTIONS section_no GENERIC_SECTION_TEMPLATES) qa_pairs =
        (None,
         qa_pairs @
         map (\<lambda>q. \<lparr>qa_image = img_path, qa_question = q, qa_answer = section_text\<rparr>)
           (questions section_no))
     \<and> sections_loop img_path sign_name sections qa_pairs =
        (None,
         qa_pairs @
         concat (map (\<lambda>(no, body).
                   map (\<lambda>q. \<lparr>qa_image = img_path, qa_question = q, qa_answer = body\<rparr>)
                     (questions no))
                 sections))
     \<and> (\<exists>keyword_records g'.
          expand_entry g img_path sign_name sections keywords qa_pairs =
            (None,
             qa_pairs @
             concat (map (\<lambda>(no, body).
                       map (\<lambda>q. \<lparr>qa_image = img_path, qa_question = q, qa_answer = body\<rparr>)
                         (questions no))
                     sections)
             @ keyword_records,
             g'))"
  (is "Let ?Q _")
proof -
  have sel: "if section_no \<in> {''1'', ''2'', ''3'', ''4''}
    then map_of SECTION_QUESTIONS section_no =
      Some (dict_get SECTION_QUESTIONS section_no GENERIC_SECTION_TEMPLATES)
    else dict_get SECTION_QUESTIONS section_no GENERIC_SECTION_TEMPLATES =
      GENERIC_SECTION_TEMPLATES"
    by (simp add: dict_get_def SECTION_QUESTIONS_def)
  have fmt: "map (\<lambda>t. format t [(''sign'', sign_name), (''section'', n)])
      (dict_get SECTION_QUESTIONS n GENERIC_SECTION_TEMPLATES) = map Inr (?Q n)" for n
    by (simp add: dict_get_def SECTION_QUESTIONS_def GENERIC_SECTION_TEMPLATES_def
        format_def squote_def)
  have len: "length (?Q section_no) = 3" by simp
  note tpl = section_templates_closed [OF fmt, of img_path section_no section_text qa_pairs]
  note loop = sections_loop_closed [of sign_name ?Q img_path sections qa_pairs, OF fmt]
  obtain sampled g1 where
    sm: "sample_loop g keywords (min (length keywords) 5) = (sampled, g1)"
    by (cases "sample_loop g keywords (min (length keywords) 5)")
  obtain new g' where
    "keywords_loop g1 img_path sign_name sections sampled
       (fst (snd (None :: error option, snd (sections_loop img_path sign_name sections qa_pairs), ()))) =
     (None, snd (sections_loop img_path sign_name sections qa_pairs) @ new, g')"
    using keywords_loop_run [of g1 img_path sign_name sections sampled
        "snd (sections_loop img_path sign_name sections qa_pairs)"]
    by auto
  then have "expand_entry g img_path sign_name sections keywords qa_pairs =
      (None, snd (sections_loop img_path sign_name sections qa_pairs) @ new, g')"
    by (simp add: expand_entry_def loop random_sample_keywords sm)
  then have ex: "\<exists>keyword_records g'.
      expand_entry g img_path sign_name sections keywords qa_pairs =
        (None,
         qa_pairs @
         concat (map (\<lambda>(no, body).
                   map (\<lambda>q. \<lparr>qa_image = img_path, qa_question = q, qa_answer = body\<rparr>)
                     (?Q no))
                 sections)
         @ keyword_records,
         g')"
    unfolding loop by auto
  from sel section_templates_length [of section_no] fmt [of section_no] len tpl loop ex
  show ?thesis unfolding Let_def by blast
qed

text \<open>
  The spec's example of an identifier outside the fixed map: section "5" of the sign
  "Stop Sign" gets the three generic questions.
\<close>

lemma generic_section_example:
  "fst (snd (try_body zero_rng (JStr ''a.png'')
      (JStr ''<traffic_sign name=\"Stop Sign\"><section title=\"5\">Stop body</traffic_sign>'') []))
   = [\<lparr>qa_image = JStr ''a.png'',
        qa_question = ''What does section 5 of the '' @ [squote] @ ''Stop Sign'' @ [squote] @ '' sign mean?'',
        qa_answer = ''Stop body''\<rparr>,
      \<lparr>qa_image = JStr ''a.png'',
        qa_question = ''Explain the rule under section 5 for the '' @ [squote] @ ''Stop Sign'' @ [squote] @ '' traffic sign.'',
        qa_answer = ''Stop body''\<rparr>,
      \<lparr>qa_image = JStr ''a.png'',
        qa_question = ''How should drivers behave according to section 5 of the '' @ [squote] @ ''Stop Sign'' @ [squote] @ '' sign?'',
        qa_answer = ''Stop body''\<rparr>]"
  by code_simp

text \<open>
  C6. For every sampled keyword the loop draws once: with no section the chosen body is
  the fixed sentence and the generator is untouched, otherwise it is the body at the
  drawn position of the section bodies and the generator has advanced by exactly one
  draw. The loop over the sampled keywords ends without an exception; it appends for the
  keyword that reads the tape at position \<open>p\<close> the 8 questions written out below, each
  with the keyword answer built from the one body chosen at \<open>p\<close>, which ends with that
  body; the positions are consecutive from the generator's position, one per keyword. The
  entry's expansion is this loop on the sampled keywords.
\<close>

theorem one_draw_per_keyword:
  "let questions = (\<lambda>kw.
          [''How is '' @ [squote] @ kw @ [squote] @ '' handled when a driver encounters the '' @ [squote] @ sign_name @ [squote] @ '' sign?'',
           ''Explain why '' @ [squote] @ kw @ [squote] @ '' is important under the '' @ [squote] @ sign_name @ [squote] @ '' sign.'',
           ''What is the implication of '' @ [squote] @ kw @ [squote] @ '' for drivers near the '' @ [squote] @ sign_name @ [squote] @ '' sign?'',
           ''In what situation does '' @ [squote] @ kw @ [squote] @ '' apply under the '' @ [squote] @ sign_name @ [squote] @ '' sign?'',
           ''If a driver is near a '' @ [squote] @ sign_name @ [squote] @ '' sign and sees '' @ [squote] @ kw @ [squote] @ '', what should they do?'',
           ''Describe what action should be taken if '' @ [squote] @ kw @ [squote] @ '' occurs near a '' @ [squote] @ sign_name @ [squote] @ '' sign.'',
           ''Why must a driver be cautious of '' @ [squote] @ kw @ [squote] @ '' when the '' @ [squote] @ sign_name @ [squote] @ '' sign is present?'',
           ''What could happen if a driver ignores the '' @ [squote] @ kw @ [squote] @ '' instruction under the '' @ [squote] @ sign_name @ [squote] @ '' sign?'']);
       chosen = (\<lambda>p. if sections = [] then ''Refer to sign rules.''
                     else map snd sections ! (tape g p mod length sections))
   in (\<exists>chosen_section g1.
         (if sections = [] then chosen_section = ''Refer to sign rules.'' \<and> g1 = g
          else chosen_section = map snd sections ! (tape g (pos g) mod length sections)
            \<and> chosen_section \<in> set (map snd sections)
            \<and> g1 = g\<lparr>pos := Suc (pos g)\<rparr>)
         \<and> choose_section g sections = Inr (chosen_section, g1)
         \<and> keywords_loop g img_path sign_name sections (kw # kws) qa_pairs =
            keywords_loop g1 img_path sign_name sections kws
              (qa_pairs @
               map (\<lambda>q. \<lparr>qa_image = img_path, qa_question = q,
                           qa_answer = keyword_answer sign_name kw chosen_section\<rparr>)
                 (questions kw)))
     \<and> map (\<lambda>t. format t [(''kw'', kw), (''sign'', sign_name)])
          (KEYWORD_TEMPLATES @ SCENARIO_TEMPLATES) = map Inr (questions kw)
     \<and> length (questions kw) = 8
     \<and> (sections = [] \<or> chosen p \<in> set (map snd sections))
     \<and> suffix c (keyword_answer sign_name kw c)
     \<and> keyword_templates img_path sign_name kw c
          (KEYWORD_TEMPLATES @ SCENARIO_TEMPLATES) qa_pairs =
        (None,
         qa_pairs @
         map (\<lambda>q. \<lparr>qa_image = img_path, qa_question = q,
                     qa_answer = keyword_answer sign_name kw c\<rparr>)
           (questions kw))
     \<and> keywords_loop g img_path sign_name sections sampled_keywords qa_pairs =
        (None,
         qa_pairs @
         concat (map (\<lambda>(p, kw).
                   map (\<lambda>q. \<lparr>qa_image = img_path, qa_question = q,
                               qa_answer = keyword_answer sign_name kw (chosen p)\<rparr>)
                     (questions kw))
                 (enumerate (pos g) sampled_keywords)),
         if sections = [] then g else g\<lparr>pos := pos g + length sampled_keywords\<rparr>)
     \<and> expand_entry g0 img_path sign_name sections keywords qa_pairs =
        (case sample_loop g0 keywords (min (length keywords) 5) of
           (sampled, g1) \<Rightarrow>
             keywords_loop g1 img_path sign_name sections sampled
               (snd (sections_loop img_path sign_name sections qa_pairs)))"
  (is "Let ?Q _")
proof -
  have fmt: "map (\<lambda>t. format t [(''kw'', k), (''sign'', sign_name)])
      (KEYWORD_TEMPLATES @ SCENARIO_TEMPLATES) = map Inr (?Q k)" for k
    by (simp add: KEYWORD_TEMPLATES_def SCENARIO_TEMPLATES_def format_def squote_def)
  have len: "length (?Q kw) = 8" by simp
  have mem: "sections = [] \<or>
      (if sections = [] then ''Refer to sign rules.''
       else map snd sections ! (tape g p mod length sections)) \<in> set (map snd sections)"
  proof (cases "sections = []")
    case True
    then show ?thesis by simp
  next
    case False
    then have "tape g p mod length sections < length (map snd sections)" by simp
    then have "map snd sections ! (tape g p mod length sections) \<in> set (map snd sections)"
      by (rule nth_mem)
    with False show ?thesis by simp
  qed
  have step: "\<exists>chosen_section g1.
         (if sections = [] then chosen_section = ''Refer to sign rules.'' \<and> g1 = g
          else chosen_section = map snd sections ! (tape g (pos g) mod length sections)
            \<and> chosen_section \<in> set (map snd sections)
            \<and> g1 = g\<lparr>pos := Suc (pos g)\<rparr>)
         \<and> choose_section g sections = Inr (chosen_section, g1)
         \<and> keywords_loop g img_path sign_name sections (kw # kws) qa_pairs =
            keywords_loop g1 img_path sign_name sections kws
              (qa_pairs @
               map (\<lambda>q. \<lparr>qa_image = img_path, qa_question = q,
                           qa_answer = keyword_answer sign_name kw chosen_section\<rparr>)
                 (?Q kw))"
  proof (cases "sections = []")
    case True
    then have c: "choose_section g sections = Inr (''Refer to sign rules.'', g)"
      by (simp add: choose_section_value)
    from True c keywords_loop_step_closed [OF fmt c, of img_path kw kws qa_pairs]
    show ?thesis by auto
  next
    case False
    let ?i = "tape g (pos g) mod length sections"
    from False have "?i < length (map snd sections)" by simp
    then have m: "map snd sections ! ?i \<in> set (map snd sections)"
      by (rule nth_mem)
    from False have c: "choose_section g sections =
        Inr (map snd sections ! ?i, g\<lparr>pos := Suc (pos g)\<rparr>)"
      by (simp add: choose_section_value)
    from False m c keywords_loop_step_closed [OF fmt c, of img_path kw kws qa_pairs]
    show ?thesis by auto
  qed
  note tpl = keyword_templates_closed [OF fmt, of img_path kw c qa_pairs]
  note loop = keywords_loop_closed [of sign_name ?Q g img_path sections sampled_keywords qa_pairs,
      OF fmt]
  note ex = expand_entry_keywords [of g0 img_path sign_name sections "keywords" qa_pairs]
  from step fmt [of kw] len mem keyword_answer_suffix [of c sign_name kw] tpl loop ex
  show ?thesis unfolding Let_def by blast
qed

text \<open>
  Two keywords over two sections, on the tape whose cell \<open>i\<close> holds \<open>i\<close>: the first
  keyword gets the first body in all its 8 answers, the second keyword the second body.
\<close>

lemma one_draw_example:
  "fst (snd (keywords_loop \<lparr>tape = (\<lambda>i. i), pos = 0\<rparr> JNull ''S''
      [(''1'', ''first body''), (''2'', ''second body'')] [''K1'', ''K2''] [])) ! 0
   = \<lparr>qa_image = JNull,
      qa_question = ''How is '' @ [squote] @ ''K1'' @ [squote]
        @ '' handled when a driver encounters the '' @ [squote] @ ''S'' @ [squote] @ '' sign?'',
      qa_answer = keyword_answer ''S'' ''K1'' ''first body''\<rparr>
   \<and> map qa_answer (fst (snd (keywords_loop \<lparr>tape = (\<lambda>i. i), pos = 0\<rparr> JNull ''S''
      [(''1'', ''first body''), (''2'', ''second body'')] [''K1'', ''K2''] [])))
   = replicate 8 (keyword_answer ''S'' ''K1'' ''first body'')
     @ replicate 8 (keyword_answer ''S'' ''K2'' ''second body'')"
  by code_simp

text \<open>
  C7. The claim: the loader fails with a validation error if the top-level value is not a
  sequence or if any element lacks the \<^verbatim>\<open>image\<close> or the \<^verbatim>\<open>ground_truth\<close> field, and
  returns the entries unchanged otherwise. The loader tests the presence of a field with
  \<^verbatim>\<open>in\<close> and never tests that the element is a dictionary, which its return type
  \<^verbatim>\<open>List[dict]\<close> and its message promise. On the document whose one element is the
  array of the two strings, an element with neither field (its subscripts raise), the
  loader raises nothing and returns the element; the run then ends in the
  \<^verbatim>\<open>TypeError\<close> of the subscript in \<^verbatim>\<open>generate_qa_pairs\<close>. On a sequence of
  objects the loader does what the claim says (\<open>load_handbook_objects\<close>).
\<close>

theorem loader_accepts_element_without_fields:
  "subscript (JArr [JStr ''image'', JStr ''ground_truth'']) ''image'' = Inl TypeError
   \<and> subscript (JArr [JStr ''image'', JStr ''ground_truth'']) ''ground_truth'' = Inl TypeError
   \<and> load_handbook (Inr (JArr [JArr [JStr ''image'', JStr ''ground_truth'']])) =
       Inr [JArr [JStr ''image'', JStr ''ground_truth'']]
   \<and> generate_qa_pairs zero_rng [JArr [JStr ''image'', JStr ''ground_truth'']] = Inl TypeError"
  by (simp add: load_handbook_def generate_qa_pairs_def)

text \<open>
  C8. For an entry whose ground-truth text has no occurrence of the sign
  pattern (the opening \<^verbatim>\<open><traffic_sign name="\<close>, a name of at least one character
  on one line, and \<^verbatim>\<open>">\<close>), in particular for a text without the opening at all, the
  extraction gives the name "Unknown", the \<^verbatim>\<open>try\<close> body is the expansion under this
  name and ends without an exception, and every record it appends has a question that
  quotes 'Unknown' and an answer that is a section body as it stands or quotes 'Unknown'.
\<close>

theorem missing_sign_tag_gives_unknown:
  assumes "\<not> (\<exists>pre n post. t = pre @ sign_open @ n @ tag_close @ post
      \<and> n \<noteq> [] \<and> newline \<notin> set n)"
  shows "\<exists>sections new g'.
      extract_flowchart_sections (JStr t) = Inr (''Unknown'', sections)
      \<and> try_body g img_path (JStr t) qa_pairs =
          expand_entry g img_path ''Unknown'' sections (extract_keywords (JStr t)) qa_pairs
      \<and> try_body g img_path (JStr t) qa_pairs = (None, qa_pairs @ new, g')
      \<and> (\<forall>r \<in> set new.
            sublist ([squote] @ ''Unknown'' @ [squote]) (qa_question r)
            \<and> (qa_answer r \<in> snd ` set sections
                \<or> sublist ([squote] @ ''Unknown'' @ [squote]) (qa_answer r)))"
proof -
  let ?sections = "collect_sections (section_matches t) []"
  let ?P = "\<lambda>r. sublist ([squote] @ ''Unknown'' @ [squote]) (qa_question r)
            \<and> (qa_answer r \<in> snd ` set ?sections
                \<or> sublist ([squote] @ ''Unknown'' @ [squote]) (qa_answer r))"
  have none: "re_search sign_match_at t = None"
  proof (cases "re_search sign_match_at t")
    case None
    then show ?thesis .
  next
    case (Some n)
    from sign_search_sound [OF this] assms show ?thesis by blast
  qed
  then have ex: "extract_flowchart_sections (JStr t) = Inr (''Unknown'', ?sections)"
    by (simp add: extract_flowchart_sections_def)
  have tb: "try_body g img_path (JStr t) qa_pairs =
      expand_entry g img_path ''Unknown'' ?sections (extract_keywords (JStr t)) qa_pairs"
    by (simp add: try_body_string none)
  have s: "?P \<lparr>qa_image = img_path,
        qa_question = projr (format q [(''sign'', ''Unknown''), (''section'', no)]),
        qa_answer = bd\<rparr>"
    if "(no, bd) \<in> set ?sections"
      and "q \<in> set (dict_get SECTION_QUESTIONS no GENERIC_SECTION_TEMPLATES)" for no bd q
    using that format_section_template_sign [of q no "''Unknown''" no]
    by (force simp: image_iff)
  have k: "?P \<lparr>qa_image = img_path,
        qa_question = projr (format q [(''kw'', kw), (''sign'', ''Unknown'')]),
        qa_answer = keyword_answer ''Unknown'' kw chosen\<rparr>"
    if "q \<in> set (KEYWORD_TEMPLATES @ SCENARIO_TEMPLATES)" for kw chosen q
    using that format_keyword_template_sign [of q "''Unknown''" kw]
      keyword_answer_sign [of "''Unknown''" kw chosen]
    by simp
  from expand_entry_all [of ?sections ?P img_path "''Unknown''" g "extract_keywords (JStr t)"
      qa_pairs, OF s k]
  obtain new g' where
    "expand_entry g img_path ''Unknown'' ?sections (extract_keywords (JStr t)) qa_pairs
      = (None, qa_pairs @ new, g')" "\<forall>r \<in> set new. ?P r"
    by blast
  with ex tb show ?thesis by auto
qed

theorem missing_sign_tag_gives_unknown_witness:
  "\<exists>sections new g'.
      extract_flowchart_sections (JStr ''<section title=\"1\">Stop fully.</traffic_sign>'')
        = Inr (''Unknown'', sections)
      \<and> try_body zero_rng (JStr ''a.png'')
          (JStr ''<section title=\"1\">Stop fully.</traffic_sign>'') []
        = (None, [] @ new, g')
      \<and> length new = 3
      \<and> (\<forall>r \<in> set new.
            sublist ([squote] @ ''Unknown'' @ [squote]) (qa_question r)
            \<and> (qa_answer r \<in> snd ` set sections
                \<or> sublist ([squote] @ ''Unknown'' @ [squote]) (qa_answer r)))"
proof -
  let ?t = "''<section title=\"1\">Stop fully.</traffic_sign>''"
  have "\<not> sublist sign_open ?t" by code_simp
  then have "\<not> (\<exists>pre n post. ?t = pre @ sign_open @ n @ tag_close @ post
      \<and> n \<noteq> [] \<and> newline \<notin> set n)"
    unfolding sublist_def by blast
  from missing_sign_tag_gives_unknown
    [OF this, of "zero_rng" "JStr ''a.png''" "[]"]
  obtain sections new g' where
    r: "extract_flowchart_sections (JStr ?t) = Inr (''Unknown'', sections)"
      "try_body zero_rng (JStr ''a.png'') (JStr ?t) [] = (None, [] @ new, g')"
      "\<forall>r \<in> set new.
            sublist ([squote] @ ''Unknown'' @ [squote]) (qa_question r)
            \<and> (qa_answer r \<in> snd ` set sections
                \<or> sublist ([squote] @ ''Unknown'' @ [squote]) (qa_answer r))"
    by blast
  have "length (fst (snd (try_body zero_rng (JStr ''a.png'') (JStr ?t) []))) = 3"
    by code_simp
  with r(2) have "length new = 3" by simp
  with r show ?thesis by blast
qed

text \<open>
  C9. When several section blocks carry the same title (after the
  \<^verbatim>\<open>strip\<close> of the title), the returned dictionary has exactly one item under that
  title, whose body is that of the last such block in scan order: for a match that no
  later match repeats the title of, the dictionary holds this match's body under the
  title. The keys are distinct and are the titles of the matches, so the section loop
  emits 3 records per distinct title, not per block.
\<close>

theorem last_section_wins:
  assumes "section_matches t = ms1 @ (title, body) # ms2"
    and "strip title \<notin> set (map (strip \<circ> fst) ms2)"
  shows "\<exists>name sections.
      extract_flowchart_sections (JStr t) = Inr (name, sections)
      \<and> distinct (map fst sections)
      \<and> set (map fst sections) = set (map (strip \<circ> fst) (section_matches t))
      \<and> map_of sections (strip title) = Some (sub_spaces (strip body))
      \<and> length (filter (\<lambda>p. fst p = strip title) sections) = 1
      \<and> (\<exists>new. sections_loop img_path name sections qa_pairs = (None, qa_pairs @ new)
            \<and> length new = 3 * card (set (map (strip \<circ> fst) (section_matches t))))"
proof -
  let ?norm = "\<lambda>(title, body). (strip title, sub_spaces (strip body))"
  let ?sections = "collect_sections (section_matches t) []"
  let ?name = "case re_search sign_match_at t of Some g \<Rightarrow> strip g | None \<Rightarrow> ''Unknown''"
  have ex: "extract_flowchart_sections (JStr t) = Inr (?name, ?sections)"
    by (simp add: extract_flowchart_sections_def)
  have d: "distinct (map fst ?sections)"
    by (rule collect_sections_distinct) simp
  have k: "set (map fst ?sections) = set (map (strip \<circ> fst) (section_matches t))"
    using collect_sections_keys [of "section_matches t" "[]"] by simp
  have "map_of (map ?norm ms2) (strip title) = None"
    using assms(2) by (force simp: map_of_eq_None_iff image_iff)
  then have "map_of (rev (map ?norm ms2)) (strip title) = None"
    by (simp add: map_of_eq_None_iff)
  then have m: "map_of ?sections (strip title) = Some (sub_spaces (strip body))"
    unfolding collect_sections_map_of assms(1) by (simp add: map_add_def)
  from d m have f: "length (filter (\<lambda>p. fst p = strip title) ?sections) = 1"
    by (rule distinct_keys_filter)
  obtain new where new: "sections_loop img_path ?name ?sections qa_pairs = (None, qa_pairs @ new)"
    "length new = 3 * length ?sections"
    using sections_loop_run by blast
  have "length ?sections = card (set (map fst ?sections))"
    using d by (metis distinct_card length_map)
  with new(2) k have "length new = 3 * card (set (map (strip \<circ> fst) (section_matches t)))"
    by simp
  with ex d k m f new(1) show ?thesis by blast
qed

theorem last_section_wins_witness:
  "section_matches ''<section title=\"1\">first<section title=\"1\">second</traffic_sign>''
     = [(''1'', ''first''), (''1'', ''second'')]
   \<and> extract_flowchart_sections
       (JStr ''<section title=\"1\">first<section title=\"1\">second</traffic_sign>'')
     = Inr (''Unknown'', [(''1'', ''second'')])
   \<and> (\<exists>name sections.
        extract_flowchart_sections
          (JStr ''<section title=\"1\">first<section title=\"1\">second</traffic_sign>'')
          = Inr (name, sections)
        \<and> distinct (map fst sections)
        \<and> map_of sections (strip ''1'') = Some (sub_spaces (strip ''second''))
        \<and> length (filter (\<lambda>p. fst p = strip ''1'') sections) = 1
        \<and> (\<exists>new. sections_loop (JStr ''a.png'') name sections [] = (None, [] @ new)
              \<and> length new = 3))"
proof -
  let ?t = "''<section title=\"1\">first<section title=\"1\">second</traffic_sign>''"
  have a: "section_matches ?t = [(''1'', ''first'')] @ (''1'', ''second'') # []"
    by code_simp
  have b: "strip ''1'' \<notin> set (map (strip \<circ> fst) [])" by simp
  have c: "extract_flowchart_sections (JStr ?t) = Inr (''Unknown'', [(''1'', ''second'')])"
    by code_simp
  have n: "card (set (map (strip \<circ> fst) [(''1'', ''first''), (''1'', ''second'')])) = 1"
    by simp
  from last_section_wins [OF a b, of "JStr ''a.png''" "[]"] a c n show ?thesis
    by auto
qed

text \<open>
  C10. A top-level list whose one element is a string that has both
  \<^verbatim>\<open>image\<close> and \<^verbatim>\<open>ground_truth\<close> as substrings passes the loader's validation,
  since \<^verbatim>\<open>in\<close> on a string is substring containment; the witness is the string
  \<^verbatim>\<open>image ground_truth\<close>, which is no mapping (its subscript raises).
\<close>

theorem string_entry_passes_validation:
  assumes "sublist ''image'' s" and "sublist ''ground_truth'' s"
  shows "load_handbook (Inr (JArr [JStr s])) = Inr [JStr s]"
  using assms by (simp add: load_handbook_def)

theorem string_entry_passes_validation_witness:
  "load_handbook (Inr (JArr [JStr ''image ground_truth''])) = Inr [JStr ''image ground_truth'']
   \<and> subscript (JStr ''image ground_truth'') ''image'' = Inl TypeError"
proof -
  have a: "sublist ''image'' ''image ground_truth''" by code_simp
  have b: "sublist ''ground_truth'' ''image ground_truth''" by code_simp
  from string_entry_passes_validation [OF a b] show ?thesis by simp
qed

end
